theory Spec2Isabelle
  imports Main
begin

section \<open>JavaScript strings\<close>

text \<open>
  A JavaScript string is modelled as the list of its code units, for strings whose code
  units are all below 256. \<open>isWhiteSpace\<close> is the class that \<open>trim\<close> and the regular
  expression \<open>\s\<close> share in that range; \<open>toLowerCase\<close> lowers the ASCII and the Latin-1
  capital letters; \<open>includesStr\<close> is \<open>String.prototype.includes\<close>; \<open>digits\<close> is the
  decimal form of a number inside a template string.
\<close>

definition isWhiteSpace :: "char \<Rightarrow> bool" where
  "isWhiteSpace c = (of_char c \<in> {9, 10, 11, 12, 13, 32, 160 :: nat})"

definition toLowerChar :: "char \<Rightarrow> char" where
  "toLowerChar c =
     (let n = (of_char c :: nat) in
      if (65 \<le> n \<and> n \<le> 90) \<or> (192 \<le> n \<and> n \<le> 214) \<or> (216 \<le> n \<and> n \<le> 222)
      then char_of (n + 32) else c)"

definition toLowerCase :: "string \<Rightarrow> string" where
  "toLowerCase s = map toLowerChar s"

definition trim :: "string \<Rightarrow> string" where
  "trim s = rev (dropWhile isWhiteSpace (rev (dropWhile isWhiteSpace s)))"

fun startsWith :: "'a list \<Rightarrow> 'a list \<Rightarrow> bool" where
  "startsWith s [] = True"
| "startsWith [] (p # ps) = False"
| "startsWith (c # cs) (p # ps) = (c = p \<and> startsWith cs ps)"

fun includesStr :: "'a list \<Rightarrow> 'a list \<Rightarrow> bool" where
  "includesStr [] sub = (sub = [])"
| "includesStr (c # cs) sub = (startsWith (c # cs) sub \<or> includesStr cs sub)"

fun digits :: "nat \<Rightarrow> string" where
  "digits n = (if n < 10 then [char_of (48 + n)] else digits (n div 10) @ [char_of (48 + n mod 10)])"

declare digits.simps [simp del]

section \<open>JavaScript dates\<close>

text \<open>
  A \<open>Date\<close> is its time value: milliseconds since 1970-01-01T00:00:00Z. The local time
  zone is a fixed offset in minutes east of UTC.
\<close>

definition msPerDay :: int where
  "msPerDay = 86400000"

definition Day :: "int \<Rightarrow> int" where
  "Day t = t div msPerDay"

definition TimeWithinDay :: "int \<Rightarrow> int" where
  "TimeWithinDay t = t mod msPerDay"

definition WeekDay :: "int \<Rightarrow> int" where
  "WeekDay t = (Day t + 4) mod 7"

definition LocalTime :: "int \<Rightarrow> int \<Rightarrow> int" where
  "LocalTime tz t = t + tz * 60000"

definition UTC :: "int \<Rightarrow> int \<Rightarrow> int" where
  "UTC tz t = t - tz * 60000"

text \<open>The civil date (year, month 1..12, day of month) of a day number, and back.\<close>

definition civilFromDays :: "int \<Rightarrow> int \<times> int \<times> int" where
  "civilFromDays d =
     (let z = d + 719468;
          era = z div 146097;
          doe = z - era * 146097;
          yoe = (doe - doe div 1460 + doe div 36524 - doe div 146096) div 365;
          y = yoe + era * 400;
          doy = doe - (365 * yoe + yoe div 4 - yoe div 100);
          mp = (5 * doy + 2) div 153;
          dd = doy - (153 * mp + 2) div 5 + 1;
          m = (if mp < 10 then mp + 3 else mp - 9)
      in (if m \<le> 2 then y + 1 else y, m, dd))"

definition daysFromCivil :: "int \<Rightarrow> int \<Rightarrow> int \<Rightarrow> int" where
  "daysFromCivil year m dd =
     (let y = (if m \<le> 2 then year - 1 else year);
          era = y div 400;
          yoe = y - era * 400;
          doy = (153 * (if m > 2 then m - 3 else m + 9) + 2) div 5 + dd - 1;
          doe = yoe * 365 + yoe div 4 - yoe div 100 + doy
      in era * 146097 + doe - 719468)"

definition getDay :: "int \<Rightarrow> int \<Rightarrow> int" where
  "getDay tz t = WeekDay (LocalTime tz t)"

definition getDate :: "int \<Rightarrow> int \<Rightarrow> int" where
  "getDate tz t = snd (snd (civilFromDays (Day (LocalTime tz t))))"

text \<open>
  \<open>setDate(dt)\<close>: the local year and month are kept, the day of the month becomes \<open>dt\<close>
  (days outside the month roll over into the neighbouring months), the local time of day
  is kept.
\<close>

definition setDate :: "int \<Rightarrow> int \<Rightarrow> int \<Rightarrow> int" where
  "setDate tz t dt =
     (let lt = LocalTime tz t;
          (y, m, d) = civilFromDays (Day lt);
          newDay = daysFromCivil y m 1 + dt - 1
      in UTC tz (newDay * msPerDay + TimeWithinDay lt))"

definition pad :: "nat \<Rightarrow> string \<Rightarrow> string" where
  "pad n s = replicate (n - length s) CHR ''0'' @ s"

text \<open>\<open>toISOString().split('T')[0]\<close>: the UTC calendar date.\<close>

definition isoDate :: "int \<Rightarrow> string" where
  "isoDate t =
     (let (y, m, d) = civilFromDays (Day t);
          year = (if 0 \<le> y \<and> y \<le> 9999 then pad 4 (digits (nat y))
                  else (if y < 0 then ''-'' else ''+'') @ pad 6 (digits (nat \<bar>y\<bar>)))
      in year @ ''-'' @ pad 2 (digits (nat m)) @ ''-'' @ pad 2 (digits (nat d)))"

text \<open>The week start that \<open>sendGoalsToBackend\<close> computes.\<close>

definition weekStartFormatted :: "int \<Rightarrow> int \<Rightarrow> string" where
  "weekStartFormatted tz currentDate =
     (let day = getDay tz currentDate;
          weekStart = setDate tz currentDate (getDate tz currentDate - day)
      in isoDate weekStart)"

text \<open>The week start as the specification words it: the local calendar date of the most
  recent Sunday on or before the local today.\<close>

definition localDateString :: "int \<Rightarrow> string" where
  "localDateString dayNumber = isoDate (dayNumber * msPerDay)"

definition mostRecentSunday :: "int \<Rightarrow> int \<Rightarrow> string" where
  "mostRecentSunday tz now =
     (let today = Day (LocalTime tz now) in localDateString (today - (today + 4) mod 7))"

section \<open>The speech-output dispatcher: \<open>TTSService\<close>\<close>

text \<open>
  The dispatcher of \<^verbatim>\<open>tts-service.js\<close> (class \<open>TTSService\<close>). A JavaScript error is
  represented by its message. A provider object is known to the dispatcher by three
  features only: its \<open>name\<close>, whether it has a \<open>getAudioElement\<close> method (the
  dispatcher then plays the returned audio element itself) and whether it has a \<open>stop\<close>
  method.
\<close>

type_synonym js_error = string

type_synonym audio = nat

record provider =
  name :: string
  hasGetAudioElement :: bool
  hasStop :: bool

text \<open>
  What one call of \<open>provider.speak\<close> does, as far as the dispatcher can see: the
  callbacks of the options object it invokes before its promise settles (only a provider
  called with callbacks can invoke them), and how the promise settles: rejected with an
  error, or fulfilled with a value that is an audio element or nothing.
\<close>

datatype callback = CbComplete | CbError js_error

datatype settle = Reject js_error | Fulfil "audio option"

record provider_run =
  callbacks :: "callback list"
  settled :: settle

text \<open>The observable actions of the dispatcher, in the order they happen.\<close>

datatype tts_effect =
    ProviderSpeak string string
  | ProviderStop string
  | AudioPause audio
  | AudioPlay audio
  | ProviderChange "string option" "string option"
  | OnComplete
  | OnError js_error

record tts_service =
  providers :: "string \<rightharpoonup> provider"
  providerNames :: "string list"
  currentProviderIndex :: nat
  isPlaying :: bool
  currentAudio :: "audio option"
  effects :: "tts_effect list"

definition emit :: "tts_effect \<Rightarrow> tts_service \<Rightarrow> tts_service" where
  "emit e s = s\<lparr>effects := effects s @ [e]\<rparr>"

text \<open>
  The constructor: every provider of the array that has a (non-empty) name is stored
  under its name and its name is appended to \<open>providerNames\<close>; a later provider of the
  same name replaces the earlier one in the dictionary, and the name is listed twice.
\<close>

fun addProviders :: "provider list \<Rightarrow> tts_service \<Rightarrow> tts_service" where
  "addProviders [] s = s"
| "addProviders (p # ps) s =
     addProviders ps
       (if name p \<noteq> [] then
          s\<lparr>providers := (providers s)(name p \<mapsto> p),
            providerNames := providerNames s @ [name p]\<rparr>
        else s)"

fun indexOf :: "'a list \<Rightarrow> 'a \<Rightarrow> nat" where
  "indexOf [] x = 0"
| "indexOf (y # ys) x = (if y = x then 0 else Suc (indexOf ys x))"

definition TTSService :: "provider list \<Rightarrow> string option \<Rightarrow> tts_service" where
  "TTSService ps defaultProvider =
     (let s = addProviders ps
                \<lparr>providers = Map.empty, providerNames = [], currentProviderIndex = 0,
                 isPlaying = False, currentAudio = None, effects = []\<rparr>
      in case defaultProvider of
           None \<Rightarrow> s
         | Some d \<Rightarrow>
             if d \<noteq> [] \<and> d \<in> set (providerNames s)
             then s\<lparr>currentProviderIndex := indexOf (providerNames s) d\<rparr>
             else s)"

text \<open>
  \<open>getCurrentProvider\<close>: \<open>null\<close> without providers; otherwise the dictionary entry of
  the name at the current index (\<open>undefined\<close> when there is none).
\<close>

definition getCurrentProvider :: "tts_service \<Rightarrow> provider option" where
  "getCurrentProvider s =
     (if length (providerNames s) = 0 then None
      else if currentProviderIndex s < length (providerNames s)
      then providers s (providerNames s ! currentProviderIndex s)
      else None)"

definition switchToNextProvider :: "tts_service \<Rightarrow> bool \<times> tts_service" where
  "switchToNextProvider s =
     (if length (providerNames s) \<le> 1 then (False, s)
      else
        let prevProvider = getCurrentProvider s;
            s1 = s\<lparr>currentProviderIndex :=
                      (currentProviderIndex s + 1) mod length (providerNames s)\<rparr>;
            newProvider = getCurrentProvider s1
        in (True, emit (ProviderChange (map_option name prevProvider)
                                       (map_option name newProvider)) s1))"

definition hasProviders :: "tts_service \<Rightarrow> bool" where
  "hasProviders s = (length (providerNames s) > 0)"

definition stop :: "tts_service \<Rightarrow> tts_service" where
  "stop s =
     (case getCurrentProvider s of
        None \<Rightarrow> s
      | Some p \<Rightarrow>
          if isPlaying s then
            let s1 = (case currentAudio s of
                        None \<Rightarrow> s
                      | Some a \<Rightarrow> (emit (AudioPause a) s)\<lparr>currentAudio := None\<rparr>);
                s2 = (if hasStop p then emit (ProviderStop (name p)) s1 else s1)
            in s2\<lparr>isPlaying := False\<rparr>
          else s)"

text \<open>
  \<open>handleAudioElement\<close>: without an element the error callback is called and nothing is
  thrown; otherwise the element is remembered and its playback started. The three
  listeners it installs run later, as events of their own.
\<close>

definition handleAudioElement :: "audio option \<Rightarrow> tts_service \<Rightarrow> tts_service" where
  "handleAudioElement audioElement s =
     (case audioElement of
        None \<Rightarrow> emit (OnError ''No audio element returned from provider'') s
      | Some a \<Rightarrow> emit (AudioPlay a) (s\<lparr>currentAudio := Some a\<rparr>))"

definition audioEnded :: "tts_service \<Rightarrow> tts_service" where
  "audioEnded s = emit OnComplete (s\<lparr>isPlaying := False, currentAudio := None\<rparr>)"

definition audioError :: "tts_service \<Rightarrow> tts_service" where
  "audioError s =
     emit (OnError ''Audio playback error'') (s\<lparr>isPlaying := False, currentAudio := None\<rparr>)"

definition audioPlayRejected :: "js_error \<Rightarrow> tts_service \<Rightarrow> tts_service" where
  "audioPlayRejected e s = emit (OnError e) (s\<lparr>isPlaying := False, currentAudio := None\<rparr>)"

text \<open>
  The callbacks that \<open>tryCurrentProvider\<close> hands to a provider without
  \<open>getAudioElement\<close>: each clears \<open>isPlaying\<close> and calls the caller's callback.
\<close>

fun runCallback :: "callback \<Rightarrow> tts_service \<Rightarrow> tts_service" where
  "runCallback CbComplete s = emit OnComplete (s\<lparr>isPlaying := False\<rparr>)"
| "runCallback (CbError e) s = emit (OnError e) (s\<lparr>isPlaying := False\<rparr>)"

definition tryCurrentProvider ::
  "string \<Rightarrow> provider_run \<Rightarrow> tts_service \<Rightarrow> (js_error + unit) \<times> tts_service" where
  "tryCurrentProvider text r s =
     (case getCurrentProvider s of
        None \<Rightarrow> (Inl ''No TTS provider available'', s)
      | Some p \<Rightarrow>
          let s1 = emit (ProviderSpeak (name p) text) s in
          if hasGetAudioElement p then
            (case settled r of
               Reject e \<Rightarrow> (Inl e, s1)
             | Fulfil audioElement \<Rightarrow> (Inr (), handleAudioElement audioElement s1))
          else
            let s2 = fold runCallback (callbacks r) s1 in
            (case settled r of
               Reject e \<Rightarrow> (Inl e, s2)
             | Fulfil _ \<Rightarrow> (Inr (), s2)))"

text \<open>
  \<open>speak\<close>. The argument \<open>run\<close> is the environment: \<open>run 0\<close> is what the provider
  called first does, \<open>run 1\<close> what the provider called second does. The result is how
  the promise of \<open>speak\<close> settles: \<open>Inl\<close> is a rejection.
\<close>

definition speak ::
  "string \<Rightarrow> (nat \<Rightarrow> provider_run) \<Rightarrow> tts_service \<Rightarrow> (js_error + unit) \<times> tts_service" where
  "speak text run s =
     (if text = [] then (Inl ''No text provided for speech'', s)
      else if \<not> hasProviders s then (Inl ''No TTS providers available'', s)
      else
        let s1 = (stop s)\<lparr>isPlaying := True\<rparr> in
        case tryCurrentProvider text (run 0) s1 of
          (Inr u, s2) \<Rightarrow> (Inr (), s2)
        | (Inl error, s2) \<Rightarrow>
            (case switchToNextProvider s2 of
               (True, s3) \<Rightarrow>
                 (case tryCurrentProvider text (run 1) s3 of
                    (Inr u, s4) \<Rightarrow> (Inr (), s4)
                  | (Inl secondError, s4) \<Rightarrow>
                      (Inr (), emit (OnError secondError) (s4\<lparr>isPlaying := False\<rparr>)))
             | (False, s3) \<Rightarrow> (Inr (), emit (OnError error) (s3\<lparr>isPlaying := False\<rparr>))))"

text \<open>The providers a run of the dispatcher called \<open>speak\<close> on, in order.\<close>

fun attempts :: "tts_effect list \<Rightarrow> string list" where
  "attempts [] = []"
| "attempts (ProviderSpeak n t # es) = n # attempts es"
| "attempts (e # es) = attempts es"

text \<open>
  What the constructor establishes and every operation keeps: the index points into
  \<open>providerNames\<close>, and every listed name has its provider in the dictionary, stored
  under its own name.
\<close>

definition registered :: "tts_service \<Rightarrow> bool" where
  "registered s =
     ((providerNames s = [] \<or> currentProviderIndex s < length (providerNames s)) \<and>
      list_all (\<lambda>n. case providers s n of None \<Rightarrow> False | Some p \<Rightarrow> name p = n)
               (providerNames s))"

text \<open>
  The dispatcher that \<open>DailyHabitTracker.initTTS\<close> builds when the server offers the
  network voice: the on-device provider first, the network provider second, the
  on-device provider as the default.
\<close>

definition webSpeechProvider :: provider where
  "webSpeechProvider = \<lparr>name = ''WebSpeech'', hasGetAudioElement = False, hasStop = True\<rparr>"

definition fishAudioProvider :: provider where
  "fishAudioProvider = \<lparr>name = ''FishAudio'', hasGetAudioElement = True, hasStop = True\<rparr>"

definition trackerTTS :: tts_service where
  "trackerTTS = TTSService [webSpeechProvider, fishAudioProvider] (Some ''WebSpeech'')"

text \<open>Two environments: both providers reject; the first rejects and the second plays.\<close>

fun bothReject :: "nat \<Rightarrow> provider_run" where
  "bothReject 0 = \<lparr>callbacks = [], settled = Reject ''first error''\<rparr>"
| "bothReject (Suc k) = \<lparr>callbacks = [], settled = Reject ''second error''\<rparr>"

fun firstRejects :: "nat \<Rightarrow> provider_run" where
  "firstRejects 0 = \<lparr>callbacks = [], settled = Reject ''first error''\<rparr>"
| "firstRejects (Suc k) = \<lparr>callbacks = [], settled = Fulfil (Some 7)\<rparr>"

text \<open>Every listed name has its provider in the dictionary, under its own name.\<close>

definition stored :: "tts_service \<Rightarrow> bool" where
  "stored s = list_all (\<lambda>n. case providers s n of None \<Rightarrow> False | Some p \<Rightarrow> name p = n) (providerNames s)"

text \<open>
  What happens to a dispatcher over its life: its owner calls \<open>speak\<close>, \<open>stop\<close> or
  \<open>switchToNextProvider\<close>, and the three listeners that \<open>handleAudioElement\<close>
  installed run. \<open>runCalls\<close> runs a sequence of them, one after the other.
\<close>

datatype tts_call =
    CallSpeak string "nat \<Rightarrow> provider_run"
  | CallStop
  | CallSwitchToNextProvider
  | AudioEnded
  | AudioError
  | AudioPlayRejected js_error

fun ttsStep :: "tts_call \<Rightarrow> tts_service \<Rightarrow> tts_service" where
  "ttsStep (CallSpeak text run) s = snd (speak text run s)"
| "ttsStep CallStop s = stop s"
| "ttsStep CallSwitchToNextProvider s = snd (switchToNextProvider s)"
| "ttsStep AudioEnded s = audioEnded s"
| "ttsStep AudioError s = audioError s"
| "ttsStep (AudioPlayRejected e) s = audioPlayRejected e s"

definition runCalls :: "tts_call list \<Rightarrow> tts_service \<Rightarrow> tts_service" where
  "runCalls cs s = fold ttsStep cs s"

text \<open>
  The calls in which the dispatcher switches providers: a \<open>speak\<close> with a text whose
  first attempt is rejected, and \<open>switchToNextProvider\<close> called directly.
\<close>

fun failsOver :: "tts_call \<Rightarrow> bool" where
  "failsOver (CallSpeak text run) =
     (text \<noteq> [] \<and> (case settled (run 0) of Reject e \<Rightarrow> True | Fulfil a \<Rightarrow> False))"
| "failsOver CallSwitchToNextProvider = True"
| "failsOver c = False"

text \<open>
  Three more environments: the network provider, called first, rejects and the on-device
  provider then speaks to the end; the on-device provider, called first, speaks to the
  end; the network provider, called first, returns its audio element.
\<close>

fun networkRejects :: "nat \<Rightarrow> provider_run" where
  "networkRejects 0 = \<lparr>callbacks = [], settled = Reject ''network error''\<rparr>"
| "networkRejects (Suc k) = \<lparr>callbacks = [CbComplete], settled = Fulfil None\<rparr>"

definition speechPlays :: "nat \<Rightarrow> provider_run" where
  "speechPlays k = \<lparr>callbacks = [CbComplete], settled = Fulfil None\<rparr>"

definition audioPlays :: "nat \<Rightarrow> provider_run" where
  "audioPlays k = \<lparr>callbacks = [], settled = Fulfil (Some 7)\<rparr>"


section \<open>The check-in session: \<open>DailyHabitTracker\<close>\<close>

text \<open>
  The class \<open>DailyHabitTracker\<close>. Its state is the record \<open>tracker\<close>; everything it tells
  the outside (status updates, callbacks, speech output, recognition starts, HTTP
  requests) is appended to \<open>trace\<close>. The page elements that only mirror the state are left
  out. What the outside answers comes from the environment \<open>env\<close>: whether the
  \<open>k\<close>-th call of \<open>ttsService.speak\<close> is fulfilled or rejected, whether the \<open>k\<close>-th call
  of \<open>recognition.start()\<close> throws, and what the two HTTP requests return. Each handler
  is run to its end, with the operations it awaits answered by the environment; the
  events of the recognition engine are handled one after the other.
\<close>

datatype recognition_context = HabitContext string string | ReflectionContext

text \<open>
  What \<open>fetch\<close> and the reading of the response come to: the request is rejected (error
  name and message), the status is not ok (status, the \<open>error\<close> field of the body when
  it has one, status text), the body is not JSON, or the body is read (its \<open>success\<close>,
  \<open>error\<close> and \<open>habit_stack\<close> fields).
\<close>

datatype http_outcome =
    FetchRejects string string
  | HttpError nat "string option" string
  | InvalidJson
  | HttpOk "bool option" "string option" "(string \<times> string) list option"

record daily_log =
  user_id :: string
  date :: string
  log_responses :: "(string \<times> string) list"
  log_reflection :: string

datatype tracker_effect =
    Status string
  | ErrorCallback string string
  | AuthRequiredCallback
  | StartCallback
  | HabitRead string string
  | HabitResponse string string string
  | SpeakText string
  | RecognitionStart
  | HttpGet string string
  | HttpPost daily_log
  | CompleteCallback "(string \<times> string) list" string bool "string option"
  | Uncaught string

record tracker =
  habitStack :: "(string \<times> string) list option"
  responses :: "(string \<times> string) list"
  currentHabitIndex :: nat
  isProcessing :: bool
  reflection :: string
  recognitionContext :: "recognition_context option"
  hasRecognition :: bool
  resolvedUserId :: "string option"
  formattedDate :: string
  speakCalls :: nat
  startCalls :: nat
  trace :: "tracker_effect list"

record env =
  speakOutcome :: "nat \<Rightarrow> js_error option"
  startOutcome :: "nat \<Rightarrow> js_error option"
  stackFetch :: http_outcome
  logPost :: http_outcome

definition DailyHabitTracker :: "string option \<Rightarrow> string \<Rightarrow> bool \<Rightarrow> tracker" where
  "DailyHabitTracker uid today rec =
     \<lparr>habitStack = None, responses = [], currentHabitIndex = 0, isProcessing = False,
      reflection = [], recognitionContext = None, hasRecognition = rec,
      resolvedUserId = uid, formattedDate = today, speakCalls = 0, startCalls = 0,
      trace = []\<rparr>"

fun assign :: "'k \<Rightarrow> 'v \<Rightarrow> ('k \<times> 'v) list \<Rightarrow> ('k \<times> 'v) list" where
  "assign k v [] = [(k, v)]"
| "assign k v ((k', v') # kvs) = (if k' = k then (k', v) # kvs else (k', v') # assign k v kvs)"

definition record_effect :: "tracker_effect \<Rightarrow> tracker \<Rightarrow> tracker" where
  "record_effect e s = s\<lparr>trace := trace s @ [e]\<rparr>"

definition updateStatus :: "string \<Rightarrow> tracker \<Rightarrow> tracker" where
  "updateStatus message s = record_effect (Status message) s"

text \<open>\<open>handleError\<close>: the user-facing message, the status line, the error callback.\<close>

definition userMessageFor :: "string \<Rightarrow> string" where
  "userMessageFor errorMessage =
     (if includesStr errorMessage ''NetworkError'' \<or> includesStr errorMessage ''Failed to fetch'' \<or>
         includesStr errorMessage ''ECONNREFUSED'' \<or> includesStr errorMessage ''network error''
      then ''Network connection issue. Please check your internet connection and try again.''
      else if includesStr errorMessage ''timeout'' \<or> includesStr errorMessage ''AbortError''
      then ''Request timed out. The server is taking too long to respond. Please try again later.''
      else if includesStr errorMessage ''500'' \<or> includesStr errorMessage ''Internal server error''
      then ''Server error. Our system is having issues. Please try again later.''
      else if includesStr errorMessage ''404'' \<or> includesStr errorMessage ''Not found''
      then ''The resource was not found. This might be because you need to create goals first.''
      else if includesStr errorMessage ''403'' \<or> includesStr errorMessage ''401'' \<or>
              includesStr errorMessage ''Authentication''
      then ''Authentication error. Please log in again or contact support.''
      else if includesStr errorMessage ''parse'' \<or> includesStr errorMessage ''JSON''
      then ''Received an invalid response from the server. Please try again.''
      else if includesStr errorMessage ''rate limit'' \<or> includesStr errorMessage ''429''
      then ''Too many requests. Please wait a moment and try again.''
      else errorMessage)"

definition handleError :: "string \<Rightarrow> tracker \<Rightarrow> tracker" where
  "handleError errorMessage s =
     (let userMessage = userMessageFor errorMessage
      in record_effect (ErrorCallback userMessage errorMessage)
           (updateStatus (''Error: '' @ userMessage) s))"

text \<open>
  The user identity the auth service or the options resolve to; \<open>onAuthRequired\<close> is
  recorded as a callback, whatever it is set to.
\<close>

definition getUserId :: "tracker \<Rightarrow> string option" where
  "getUserId s = (case resolvedUserId s of None \<Rightarrow> None | Some u \<Rightarrow> if u = [] then None else Some u)"

definition checkAuthentication :: "tracker \<Rightarrow> bool \<times> tracker" where
  "checkAuthentication s =
     (case getUserId s of
        None \<Rightarrow> (False, record_effect AuthRequiredCallback s)
      | Some u \<Rightarrow> (True, s))"

text \<open>\<open>speakText\<close>: nothing is spoken for an empty text; a rejected speech is reported and
  rethrown. The result is the error of a rejection.\<close>

definition speakText :: "env \<Rightarrow> string \<Rightarrow> tracker \<Rightarrow> js_error option \<times> tracker" where
  "speakText env text s =
     (if text = [] then (None, s)
      else
        let k = speakCalls s;
            s1 = record_effect (SpeakText text) (s\<lparr>speakCalls := k + 1\<rparr>)
        in case speakOutcome env k of
             None \<Rightarrow> (None, s1)
           | Some e \<Rightarrow> (Some e, handleError (''Failed to speak text: '' @ e) s1))"

text \<open>\<open>v || d\<close> for strings, and the re-wording of the inner \<open>catch (networkError)\<close>.\<close>

definition orElse :: "string option \<Rightarrow> string \<Rightarrow> string" where
  "orElse v d = (case v of None \<Rightarrow> d | Some x \<Rightarrow> if x = [] then d else x)"

definition networkErrorMessage :: "string \<Rightarrow> string \<Rightarrow> string" where
  "networkErrorMessage nm message =
     (if nm = ''AbortError''
      then ''Request timed out. Please check your connection and try again.''
      else if includesStr message ''NetworkError'' \<or> includesStr message ''Failed to fetch''
      then ''Network error. Please check your connection and try again.''
      else message)"

text \<open>The failure ending of submitDailyLog (its outer catch).\<close>

definition submitFailed :: "string \<Rightarrow> tracker \<Rightarrow> tracker" where
  "submitFailed message s =
     (let s1 = handleError (''Error submitting daily log: '' @ message) s;
          s2 = updateStatus (''Error: '' @ message) s1;
          s3 = record_effect (CompleteCallback (responses s2) (reflection s2) False (Some message)) s2
      in s3\<lparr>isProcessing := False\<rparr>)"

text \<open>\<open>submitDailyLog\<close>: one POST, no retry.\<close>

definition submitDailyLog :: "env \<Rightarrow> tracker \<Rightarrow> tracker" where
  "submitDailyLog env s =
     (case checkAuthentication s of
        (False, s1) \<Rightarrow> s1
      | (True, s1) \<Rightarrow>
          let s2 = updateStatus ''Submitting your daily log...'' s1 in
          case getUserId s2 of
            None \<Rightarrow> submitFailed ''User ID is not set. Please login first.'' s2
          | Some userId \<Rightarrow>
              if responses s2 = []
              then submitFailed ''No habit responses to submit'' s2
              else
                let payload = \<lparr>user_id = userId, date = formattedDate s2,
                               log_responses = responses s2, log_reflection = reflection s2\<rparr>;
                    s3 = record_effect (HttpPost payload) s2
                in case logPost env of
                     FetchRejects nm message \<Rightarrow> submitFailed (networkErrorMessage nm message) s3
                   | HttpError status err statusText \<Rightarrow>
                       if status = 401
                       then submitFailed
                              (networkErrorMessage ''Error''
                                 ''Authentication required. Please log in first.'')
                              (record_effect AuthRequiredCallback s3)
                       else submitFailed
                              (networkErrorMessage ''Error''
                                (if status = 400
                                 then ''Invalid request: '' @ orElse err ''Missing required parameters''
                                 else if status = 429 then ''Server is busy. Please try again later.''
                                 else if status \<ge> 500
                                 then ''Server error: '' @ orElse err ''Internal server error''
                                 else ''API error ('' @ digits status @ ''): '' @ orElse err statusText))
                              s3
                   | InvalidJson \<Rightarrow>
                       submitFailed (networkErrorMessage ''Error''
                                       ''Invalid response format from server'') s3
                   | HttpOk success err stack \<Rightarrow>
                       if success = Some False
                       then submitFailed (networkErrorMessage ''Error'' (orElse err ''Unknown API error'')) s3
                       else
                         let s4 = updateStatus ''Daily log submitted successfully!'' s3 in
                         case speakText env ''Thank you! Your daily log has been saved.'' s4 of
                           (Some e, s5) \<Rightarrow> submitFailed (networkErrorMessage ''Error'' e) s5
                         | (None, s5) \<Rightarrow>
                             (record_effect (CompleteCallback (responses s5) (reflection s5) True None) s5)
                               \<lparr>isProcessing := False\<rparr>)"

text \<open>The habits of a stack: the non-empty slots \<open>habit_1\<close> to \<open>habit_5\<close>, in order.\<close>

definition habitKeys :: "string list" where
  "habitKeys = [''habit_1'', ''habit_2'', ''habit_3'', ''habit_4'', ''habit_5'']"

definition availableHabits :: "(string \<times> string) list \<Rightarrow> (string \<times> string) list" where
  "availableHabits stack =
     List.map_filter
       (\<lambda>habitKey. case map_of stack habitKey of
                     None \<Rightarrow> None
                   | Some t \<Rightarrow> if t = [] then None else Some (habitKey, t))
       habitKeys"

text \<open>\<open>fetchHabitStack\<close> and its outer catch. The result is the error it throws.\<close>

definition fetchFailed :: "string \<Rightarrow> tracker \<Rightarrow> js_error option \<times> tracker" where
  "fetchFailed message s =
     (Some message,
      updateStatus (''Error: '' @ message) (handleError (''Error fetching habit stack: '' @ message) s))"

definition fetchHabitStack :: "env \<Rightarrow> tracker \<Rightarrow> js_error option \<times> tracker" where
  "fetchHabitStack env s =
     (let s1 = updateStatus ''Fetching your habits for today...'' s in
      case getUserId s1 of
        None \<Rightarrow> fetchFailed ''User ID is not set. Please login first.'' s1
      | Some userId \<Rightarrow>
          let s2 = record_effect (HttpGet userId (formattedDate s1)) s1 in
          case stackFetch env of
            FetchRejects nm message \<Rightarrow> fetchFailed (networkErrorMessage nm message) s2
          | HttpError status err statusText \<Rightarrow>
              if status = 401
              then fetchFailed
                     (networkErrorMessage ''Error'' ''Authentication required. Please log in first.'')
                     (record_effect AuthRequiredCallback s2)
              else fetchFailed
                     (networkErrorMessage ''Error''
                       (if status = 400
                        then ''Invalid request: '' @ orElse err ''Missing required parameters''
                        else if status = 404
                        then ''No habit stack found for today. Please create goals first.''
                        else if status = 429 then ''Server is busy. Please try again later.''
                        else if status \<ge> 500
                        then ''Server error: '' @ orElse err ''Internal server error''
                        else ''API error ('' @ digits status @ ''): '' @ orElse err statusText))
                     s2
          | InvalidJson \<Rightarrow>
              fetchFailed (networkErrorMessage ''Error'' ''Invalid response format from server'') s2
          | HttpOk success err stack \<Rightarrow>
              if success = Some False
              then fetchFailed (networkErrorMessage ''Error'' (orElse err ''Unknown API error'')) s2
              else
                (case stack of
                   None \<Rightarrow>
                     fetchFailed
                       (networkErrorMessage ''Error''
                          ''No habit stack found for today. Please create goals first.'') s2
                 | Some st \<Rightarrow>
                     (None, updateStatus ''Habits loaded for today.'' (s2\<lparr>habitStack := Some st\<rparr>))))"

text \<open>
  \<open>askForReflection\<close>: a failure of the prompt or of the start of the recognition
  submits the log without a reflection.
\<close>

definition askForReflection :: "env \<Rightarrow> tracker \<Rightarrow> tracker" where
  "askForReflection env s =
     (let s1 = updateStatus ''All habits processed. Would you like to add a reflection?'' s in
      case speakText env
             ''All habits are done for today. Would you like to add any reflection on your progress? If so, please speak after the beep. Otherwise, say skip.''
             s1 of
        (Some e, s2) \<Rightarrow>
          submitDailyLog env (handleError (''Error asking for reflection: '' @ e) s2)
      | (None, s2) \<Rightarrow>
          let s3 = s2\<lparr>recognitionContext := Some ReflectionContext\<rparr> in
          if \<not> hasRecognition s3
          then submitDailyLog env
                 (handleError (''Error asking for reflection: '' @ ''Cannot read properties of null'') s3)
          else
            let k = startCalls s3; s4 = s3\<lparr>startCalls := k + 1\<rparr> in
            case startOutcome env k of
              None \<Rightarrow> record_effect RecognitionStart s4
            | Some e \<Rightarrow>
                submitDailyLog env (handleError (''Error asking for reflection: '' @ e) s4))"

text \<open>The habits not yet processed: what the recursion below consumes.\<close>

definition habitsLeft :: "tracker \<Rightarrow> nat" where
  "habitsLeft s =
     length (case habitStack s of None \<Rightarrow> [] | Some stack \<Rightarrow> availableHabits stack) -
     currentHabitIndex s"

text \<open>
  \<open>processNextHabit\<close> and \<open>listenForResponse\<close> call each other: a prompt that cannot be
  spoken and a recognition that cannot be started both move on to the next habit.
\<close>

function processNextHabit :: "env \<Rightarrow> tracker \<Rightarrow> tracker"
  and listenForResponse :: "env \<Rightarrow> string \<times> string \<Rightarrow> tracker \<Rightarrow> tracker" where
  "processNextHabit env s =
     (case habitStack s of
        None \<Rightarrow> (updateStatus ''No habit stack available.'' s)\<lparr>isProcessing := False\<rparr>
      | Some stack \<Rightarrow>
          let habits = availableHabits stack in
          if currentHabitIndex s \<ge> length habits then askForReflection env s
          else
            let currentHabit = habits ! currentHabitIndex s;
                s1 = updateStatus (''Habit '' @ digits (currentHabitIndex s + 1) @ '': '' @
                                   snd currentHabit) s;
                s2 = record_effect (HabitRead (fst currentHabit) (snd currentHabit)) s1
            in case speakText env
                      (''Did you complete this habit today: '' @ snd currentHabit @
                       ''? Please respond with yes, no, or skip.'') s2 of
                 (None, s3) \<Rightarrow> listenForResponse env currentHabit s3
               | (Some e, s3) \<Rightarrow>
                   processNextHabit env
                     ((handleError (''Error processing habit: '' @ e) s3)
                        \<lparr>currentHabitIndex := currentHabitIndex s3 + 1\<rparr>))"
| "listenForResponse env currentHabit s =
     (if \<not> hasRecognition s then handleError ''Speech recognition not initialized'' s
      else
        let s1 = (updateStatus ''Listening for your response...'' s)
                   \<lparr>recognitionContext := Some (HabitContext (fst currentHabit) (snd currentHabit))\<rparr>;
            k = startCalls s1;
            s2 = s1\<lparr>startCalls := k + 1\<rparr>
        in case startOutcome env k of
             None \<Rightarrow> record_effect RecognitionStart s2
           | Some e \<Rightarrow>
               processNextHabit env
                 ((handleError (''Error starting speech recognition: '' @ e) s2)
                    \<lparr>currentHabitIndex := currentHabitIndex s2 + 1\<rparr>))"
  by pat_completeness auto

termination
  apply (relation "measure (\<lambda>x. case x of
          Inl (env, s) \<Rightarrow> 2 * habitsLeft s + 1
        | Inr (env, h, s) \<Rightarrow> if habitsLeft s = 0 then 2 else 2 * habitsLeft s)")
     apply simp
  subgoal for env s x2 x xa xb xc xd y
    by (cases "speakOutcome env (speakCalls xc)")
       (simp_all add: habitsLeft_def speakText_def handleError_def updateStatus_def
                  record_effect_def Let_def)
  subgoal for env s x2 x xa xb xc xd y x2a
    by (cases "speakOutcome env (speakCalls xc)")
       (simp_all add: habitsLeft_def speakText_def handleError_def updateStatus_def
                  record_effect_def Let_def)
  subgoal for env currentHabit s x xa xb x2
    by (cases "habitStack s")
       (auto simp add: habitsLeft_def handleError_def updateStatus_def record_effect_def Let_def)
  done

declare processNextHabit.simps [simp del] listenForResponse.simps [simp del]

text \<open>The keyword tests of \<open>handleSpeechResult\<close>: \<open>None\<close> is the unrecognized response.\<close>

definition classifyResponse :: "string \<Rightarrow> string option" where
  "classifyResponse transcript =
     (if includesStr transcript ''yes'' \<or> includesStr transcript ''yeah'' \<or>
         includesStr transcript ''yep'' then Some ''yes''
      else if includesStr transcript ''no'' \<or> includesStr transcript ''nope'' \<or>
              includesStr transcript ''nah'' then Some ''no''
      else if includesStr transcript ''skip'' then Some ''skip''
      else None)"

definition sorryPrompt :: string where
  "sorryPrompt = ''Sorry, I didn't understand. Please say yes, no, or skip.''"

definition handleSpeechResult :: "env \<Rightarrow> string \<Rightarrow> tracker \<Rightarrow> tracker" where
  "handleSpeechResult env spoken s =
     (let transcript = toLowerCase (trim spoken) in
      case recognitionContext s of
        None \<Rightarrow> record_effect (Uncaught ''TypeError'') s
      | Some (HabitContext habitKey habitText) \<Rightarrow>
          (case classifyResponse transcript of
             None \<Rightarrow>
               (case speakText env sorryPrompt s of
                  (None, s1) \<Rightarrow> listenForResponse env (habitKey, habitText) s1
                | (Some e, s1) \<Rightarrow> record_effect (Uncaught e) s1)
           | Some response \<Rightarrow>
               let s1 = s\<lparr>responses := assign habitKey response (responses s)\<rparr>;
                   s2 = updateStatus (''Recorded: '' @ response @ '' for '' @ habitText) s1;
                   s3 = record_effect (HabitResponse habitKey habitText response) s2
               in processNextHabit env (s3\<lparr>currentHabitIndex := currentHabitIndex s3 + 1\<rparr>))
      | Some ReflectionContext \<Rightarrow>
          submitDailyLog env (updateStatus ''Reflection recorded.'' (s\<lparr>reflection := transcript\<rparr>)))"

text \<open>The two other handlers of the recognition engine, and the start button.\<close>

definition handleSpeechError :: "env \<Rightarrow> string \<Rightarrow> tracker \<Rightarrow> tracker" where
  "handleSpeechError env err s =
     (let s1 = handleError (''Speech recognition error: '' @ err) s in
      case recognitionContext s1 of
        None \<Rightarrow> record_effect (Uncaught ''TypeError'') s1
      | Some (HabitContext habitKey habitText) \<Rightarrow>
          processNextHabit env (s1\<lparr>currentHabitIndex := currentHabitIndex s1 + 1\<rparr>)
      | Some ReflectionContext \<Rightarrow> submitDailyLog env s1)"

definition handleSpeechEnd :: "env \<Rightarrow> tracker \<Rightarrow> tracker" where
  "handleSpeechEnd env s =
     (if isProcessing s then
        (case recognitionContext s of
           None \<Rightarrow> record_effect (Uncaught ''TypeError'') s
         | Some (HabitContext habitKey habitText) \<Rightarrow>
             if orElse (map_of (responses s) habitKey) [] = []
             then listenForResponse env (habitKey, habitText)
                    (updateStatus ''No response detected. Trying again...'' s)
             else s
         | Some ReflectionContext \<Rightarrow> s)
      else s)"

definition startDailyCheck :: "env \<Rightarrow> tracker \<Rightarrow> tracker" where
  "startDailyCheck env s =
     (if isProcessing s then s
      else case checkAuthentication s of
        (False, s1) \<Rightarrow> s1
      | (True, s1) \<Rightarrow>
          let s2 = updateStatus ''Starting daily habit check...''
                     (record_effect StartCallback (s1\<lparr>isProcessing := True\<rparr>))
          in case fetchHabitStack env s2 of
               (Some e, s3) \<Rightarrow>
                 (handleError (''Failed to start daily check: '' @ e) s3)\<lparr>isProcessing := False\<rparr>
             | (None, s3) \<Rightarrow>
                 processNextHabit env (s3\<lparr>responses := [], currentHabitIndex := 0\<rparr>))"

text \<open>A session is the sequence of the events it handles.\<close>

datatype tracker_event = StartDailyCheck | SpeechResult string | SpeechError string | SpeechEnd

fun trackerStep :: "env \<Rightarrow> tracker_event \<Rightarrow> tracker \<Rightarrow> tracker" where
  "trackerStep env StartDailyCheck s = startDailyCheck env s"
| "trackerStep env (SpeechResult spoken) s = handleSpeechResult env spoken s"
| "trackerStep env (SpeechError err) s = handleSpeechError env err s"
| "trackerStep env SpeechEnd s = handleSpeechEnd env s"

definition runSession :: "env \<Rightarrow> tracker_event list \<Rightarrow> tracker \<Rightarrow> tracker" where
  "runSession env evs s = fold (trackerStep env) evs s"

fun posted :: "tracker_effect list \<Rightarrow> daily_log list" where
  "posted [] = []"
| "posted (HttpPost p # es) = p # posted es"
| "posted (e # es) = posted es"

text \<open>
  The scenario of the specification: two habits, every speech output and both requests
  succeed, and the user says "yes", "no" and "skip".
\<close>

definition alwaysOk :: "nat \<Rightarrow> js_error option" where
  "alwaysOk k = None"

definition twoHabitStack :: "(string \<times> string) list" where
  "twoHabitStack = [(''habit_1'', ''Drink water''), (''habit_2'', ''Stretch'')]"

definition scenarioEnv :: env where
  "scenarioEnv = \<lparr>speakOutcome = alwaysOk, startOutcome = alwaysOk,
                  stackFetch = HttpOk (Some True) None (Some twoHabitStack),
                  logPost = HttpOk (Some True) None None\<rparr>"

definition scenarioEvents :: "tracker_event list" where
  "scenarioEvents = [StartDailyCheck, SpeechResult ''yes'', SpeechEnd, SpeechResult ''no'',
                     SpeechEnd, SpeechResult ''skip'', SpeechEnd]"

definition scenarioStart :: tracker where
  "scenarioStart = DailyHabitTracker (Some ''user-1'') ''2024-01-10'' True"

text \<open>
  The classification as the specification words it: a marker occurs in the transcript
  when the transcript is some text, the marker, and some text.
\<close>

definition occursIn :: "string \<Rightarrow> string \<Rightarrow> bool" where
  "occursIn marker t = (\<exists>before after. t = before @ marker @ after)"

definition classifyBySpec :: "string \<Rightarrow> string option" where
  "classifyBySpec t =
     (if \<exists>m \<in> set [''yes'', ''yeah'', ''yep'']. occursIn m t then Some ''yes''
      else if \<exists>m \<in> set [''no'', ''nope'', ''nah'']. occursIn m t then Some ''no''
      else if \<exists>m \<in> set [''skip'']. occursIn m t then Some ''skip''
      else None)"

text \<open>Sessions and projections of the trace used in the examples.\<close>

definition threeHabitStack :: "(string \<times> string) list" where
  "threeHabitStack = [(''habit_1'', ''Drink water''), (''habit_2'', ''Stretch''), (''habit_3'', ''Read'')]"

definition threeHabitEnv :: env where
  "threeHabitEnv = \<lparr>speakOutcome = alwaysOk, startOutcome = alwaysOk,
                    stackFetch = HttpOk (Some True) None (Some threeHabitStack),
                    logPost = HttpOk (Some True) None None\<rparr>"

definition listeningSecond :: tracker where
  "listeningSecond = runSession threeHabitEnv [StartDailyCheck, SpeechResult ''yes''] scenarioStart"

definition listeningFirst :: tracker where
  "listeningFirst = runSession scenarioEnv [StartDailyCheck] scenarioStart"

fun habitsRead :: "tracker_effect list \<Rightarrow> string list" where
  "habitsRead [] = []"
| "habitsRead (HabitRead k t # es) = k # habitsRead es"
| "habitsRead (e # es) = habitsRead es"

fun errorsReported :: "tracker_effect list \<Rightarrow> string list" where
  "errorsReported [] = []"
| "errorsReported (ErrorCallback m t # es) = t # errorsReported es"
| "errorsReported (e # es) = errorsReported es"

fun spokenTexts :: "tracker_effect list \<Rightarrow> string list" where
  "spokenTexts [] = []"
| "spokenTexts (SpeakText t # es) = t # spokenTexts es"
| "spokenTexts (e # es) = spokenTexts es"

definition reflectionStatus :: string where
  "reflectionStatus = ''All habits processed. Would you like to add a reflection?''"

definition errorEvents :: "tracker_event list" where
  "errorEvents = [StartDailyCheck, SpeechResult ''yes'', SpeechError ''network'',
                  SpeechResult ''no'', SpeechResult ''skip'']"

definition emptyStackEnv :: env where
  "emptyStackEnv = \<lparr>speakOutcome = alwaysOk, startOutcome = alwaysOk,
                    stackFetch = HttpOk (Some True) None (Some [(''habit_1'', [])]),
                    logPost = HttpOk (Some True) None None\<rparr>"

definition reflectionPrompt :: string where
  "reflectionPrompt = ''All habits are done for today. Would you like to add any reflection on your progress? If so, please speak after the beep. Otherwise, say skip.''"

definition noStackMessage :: string where
  "noStackMessage = ''No habit stack found for today. Please create goals first.''"

text \<open>The state in which \<open>startDailyCheck\<close> calls \<open>processNextHabit\<close> after a fetch that succeeded.\<close>

definition afterFetch :: "string \<Rightarrow> (string \<times> string) list \<Rightarrow> tracker \<Rightarrow> tracker" where
  "afterFetch userId stack s =
     (updateStatus ''Habits loaded for today.''
        ((record_effect (HttpGet userId (formattedDate s))
            (updateStatus ''Fetching your habits for today...''
               (updateStatus ''Starting daily habit check...''
                  (record_effect StartCallback (s\<lparr>isProcessing := True\<rparr>)))))
           \<lparr>habitStack := Some stack\<rparr>))
       \<lparr>responses := [], currentHabitIndex := 0\<rparr>"

text \<open>\<open>this.currentHabitIndex++\<close>\<close>

definition advance :: "tracker \<Rightarrow> tracker" where
  "advance x = x\<lparr>currentHabitIndex := currentHabitIndex x + 1\<rparr>"

definition failsFirst :: "nat \<Rightarrow> js_error option" where
  "failsFirst k = (if k = 0 then Some ''unavailable'' else None)"

definition speechFailsEnv :: env where
  "speechFailsEnv = \<lparr>speakOutcome = failsFirst, startOutcome = alwaysOk,
                     stackFetch = HttpOk (Some True) None (Some threeHabitStack),
                     logPost = HttpOk (Some True) None None\<rparr>"

definition startFailsEnv :: env where
  "startFailsEnv = \<lparr>speakOutcome = alwaysOk, startOutcome = failsFirst,
                    stackFetch = HttpOk (Some True) None (Some threeHabitStack),
                    logPost = HttpOk (Some True) None None\<rparr>"

definition fetchedThree :: tracker where
  "fetchedThree = afterFetch ''user-1'' threeHabitStack scenarioStart"

section \<open>The goals session: \<open>VoiceGoalsInput\<close>\<close>

subsection \<open>Splitting a transcript into goals\<close>

definition isDigit :: "char \<Rightarrow> bool" where
  "isDigit c = (48 \<le> (of_char c :: nat) \<and> (of_char c :: nat) \<le> 57)"

definition isMarkerEnd :: "char \<Rightarrow> bool" where
  "isMarkerEnd c = (c = CHR ''.'' \<or> c = CHR '')'')"

text \<open>\<open>\d+[\.\)]\<close> at the start of a string: the marker and what follows it.\<close>

definition matchMarker :: "string \<Rightarrow> (string \<times> string) option" where
  "matchMarker s =
     (let ds = takeWhile isDigit s; r = dropWhile isDigit s in
      if ds = [] then None
      else case r of
             [] \<Rightarrow> None
           | c # r' \<Rightarrow> if isMarkerEnd c then Some (ds @ [c], r') else None)"

text \<open>\<open>/\d+[\.\)]/.test(transcript)\<close>\<close>

fun hasNumberMarker :: "string \<Rightarrow> bool" where
  "hasNumberMarker [] = False"
| "hasNumberMarker (c # cs) = (matchMarker (c # cs) \<noteq> None \<or> hasNumberMarker cs)"

text \<open>The class \<open>[^,\.\d\)]\<close>.\<close>

definition isGoalChar :: "char \<Rightarrow> bool" where
  "isGoalChar c = (c \<noteq> CHR '','' \<and> c \<noteq> CHR ''.'' \<and> \<not> isDigit c \<and> c \<noteq> CHR '')'')"

text \<open>\<open>(\d+[\.\)])([^,\.\d\)]+)\<close> at the start of a string: the matched text and the rest.\<close>

definition matchNumbered :: "string \<Rightarrow> (string \<times> string) option" where
  "matchNumbered s =
     (case matchMarker s of
        None \<Rightarrow> None
      | Some (marker, r) \<Rightarrow>
          let body = takeWhile isGoalChar r in
          if body = [] then None else Some (marker @ body, dropWhile isGoalChar r))"

definition splitToken :: string where
  "splitToken = ''___SPLIT___''"

function replaceMarkers :: "string \<Rightarrow> string" where
  "replaceMarkers [] = []"
| "replaceMarkers (c # cs) =
     (case matchNumbered (c # cs) of
        Some (m, r) \<Rightarrow> splitToken @ m @ replaceMarkers r
      | None \<Rightarrow> c # replaceMarkers cs)"
  by pat_completeness auto
termination
proof (relation "measure length")
  show "wf (measure length)" by simp
next
  fix c :: char and cs :: string
  show "(cs, c # cs) \<in> measure length" by simp
next
  fix c :: char and cs x2 m r
  assume a: "matchNumbered (c # cs) = Some x2" "(m, r) = x2"
  then obtain marker r0 where mm: "matchMarker (c # cs) = Some (marker, r0)"
    and r: "r = dropWhile isGoalChar r0"
    by (auto simp: matchNumbered_def Let_def split: option.splits if_splits)
  from mm obtain d where d: "dropWhile isDigit (c # cs) = d # r0"
    by (auto simp: matchMarker_def Let_def split: if_splits list.splits)
  have "length (d # r0) \<le> length (c # cs)"
    unfolding d [symmetric] by (rule length_dropWhile_le)
  moreover have "length r \<le> length r0" unfolding r by (rule length_dropWhile_le)
  ultimately show "(r, c # cs) \<in> measure length" by simp
qed

text \<open>
  \<open>String.prototype.split\<close> with a separator that cannot match the empty string. The
  matcher tells how many characters the separator takes at the start of a string.
\<close>

function splitFrom :: "(string \<Rightarrow> nat option) \<Rightarrow> string \<Rightarrow> string \<Rightarrow> string list" where
  "splitFrom matchAt acc [] = [rev acc]"
| "splitFrom matchAt acc (c # cs) =
     (case matchAt (c # cs) of
        Some n \<Rightarrow>
          if n = 0 then splitFrom matchAt (c # acc) cs
          else rev acc # splitFrom matchAt [] (drop n (c # cs))
      | None \<Rightarrow> splitFrom matchAt (c # acc) cs)"
  by pat_completeness auto
termination
  by (relation "measure (\<lambda>(m, acc, s). length s)") auto

definition splitBy :: "(string \<Rightarrow> nat option) \<Rightarrow> string \<Rightarrow> string list" where
  "splitBy matchAt s = splitFrom matchAt [] s"

definition matchString :: "string \<Rightarrow> string \<Rightarrow> nat option" where
  "matchString sep s = (if startsWith s sep then Some (length sep) else None)"

datatype split_pattern = Word string | Comma | Period | NumberMarker

definition startsWithIgnoreCase :: "string \<Rightarrow> string \<Rightarrow> bool" where
  "startsWithIgnoreCase s w = startsWith (map toLowerChar s) (map toLowerChar w)"

text \<open>How many characters each pattern of \<open>splitPatterns\<close> takes at the start of a string.\<close>

fun matchPattern :: "split_pattern \<Rightarrow> string \<Rightarrow> nat option" where
  "matchPattern (Word w) s =
     (let ws1 = takeWhile isWhiteSpace s; r1 = dropWhile isWhiteSpace s in
      if ws1 = [] \<or> \<not> startsWithIgnoreCase r1 w then None
      else
        let ws2 = takeWhile isWhiteSpace (drop (length w) r1) in
        if ws2 = [] then None else Some (length ws1 + length w + length ws2))"
| "matchPattern Comma s =
     (let ws1 = takeWhile isWhiteSpace s; r1 = dropWhile isWhiteSpace s in
      case r1 of
        [] \<Rightarrow> None
      | c # r2 \<Rightarrow>
          if c = CHR '','' then Some (length ws1 + 1 + length (takeWhile isWhiteSpace r2))
          else None)"
| "matchPattern Period s =
     (let ws1 = takeWhile isWhiteSpace s; r1 = dropWhile isWhiteSpace s in
      case r1 of
        [] \<Rightarrow> None
      | c # r2 \<Rightarrow>
          if c = CHR ''.'' then Some (length ws1 + 1 + length (takeWhile isWhiteSpace r2))
          else None)"
| "matchPattern NumberMarker s =
     (let ws1 = takeWhile isWhiteSpace s; r1 = dropWhile isWhiteSpace s in
      case matchMarker r1 of
        None \<Rightarrow> None
      | Some (marker, r2) \<Rightarrow>
          Some (length ws1 + length marker + length (takeWhile isWhiteSpace r2)))"

definition splitPatterns :: "split_pattern list" where
  "splitPatterns = [Word ''and'', Comma, Word ''also'', Period, NumberMarker,
                    Word ''next'', Word ''finally'', Word ''lastly'']"

text \<open>\<open>goal.replace(/^\s*\d+[\.\)]\s*/, '')\<close>\<close>

definition stripLeadingMarker :: "string \<Rightarrow> string" where
  "stripLeadingMarker goal =
     (case matchPattern NumberMarker goal of None \<Rightarrow> goal | Some n \<Rightarrow> drop n goal)"

text \<open>The loop over the patterns.\<close>

fun tryPatterns :: "string \<Rightarrow> split_pattern list \<Rightarrow> string list \<Rightarrow> string list" where
  "tryPatterns transcript [] goals = goals"
| "tryPatterns transcript (pattern # rest) goals =
     (if length goals = 0 \<or> length goals = 1
      then tryPatterns transcript rest
             (filter (\<lambda>g. g \<noteq> []) (splitBy (matchPattern pattern) transcript))
      else goals)"

definition processTranscriptIntoGoals :: "nat \<Rightarrow> string \<Rightarrow> string list" where
  "processTranscriptIntoGoals maxGoals transcript =
     (let goals =
            (if hasNumberMarker transcript then
               let numberedFormat = replaceMarkers transcript;
                   parts = filter (\<lambda>g. g \<noteq> []) (splitBy (matchString splitToken) numberedFormat)
               in map (\<lambda>goal. trim (stripLeadingMarker goal)) parts
             else tryPatterns transcript splitPatterns []);
          cleaned = take maxGoals (filter (\<lambda>goal. length goal > 0) (map trim goals))
      in if length cleaned = 0 \<and> length (trim transcript) > 0 then [trim transcript]
         else cleaned)"

text \<open>
  The segmentation as the specification words it, for a transcript with numeric markers:
  cut immediately before each marker (a run of digits followed by \<open>.\<close> or \<open>)\<close>),
  strip the leading marker from each fragment, trim, drop the empty fragments, keep at
  most \<open>maxGoals\<close>, and fall back to the whole transcript when nothing is left of a
  non-empty transcript.
\<close>

function cutsFrom :: "string \<Rightarrow> string \<Rightarrow> string list" where
  "cutsFrom acc [] = [rev acc]"
| "cutsFrom acc (c # cs) =
     (case matchMarker (c # cs) of
        Some (marker, r) \<Rightarrow> rev acc # cutsFrom (rev marker) r
      | None \<Rightarrow> cutsFrom (c # acc) cs)"
  by pat_completeness auto
termination
proof (relation "measure (\<lambda>(acc, s). length s)")
  show "wf (measure (\<lambda>(acc, s). length s))" by simp
next
  fix acc :: string and c :: char and cs :: string
  show "((c # acc, cs), (acc, c # cs)) \<in> measure (\<lambda>(acc, s). length s)" by simp
next
  fix acc :: string and c :: char and cs x2 marker r
  assume a: "matchMarker (c # cs) = Some x2" "(marker, r) = x2"
  then obtain d where d: "dropWhile isDigit (c # cs) = d # r"
    by (auto simp: matchMarker_def Let_def split: if_splits list.splits)
  have "length (d # r) \<le> length (c # cs)"
    unfolding d [symmetric] by (rule length_dropWhile_le)
  then show "((rev marker, r), (acc, c # cs)) \<in> measure (\<lambda>(acc, s). length s)" by simp
qed

definition cutBeforeMarkers :: "string \<Rightarrow> string list" where
  "cutBeforeMarkers transcript = cutsFrom [] transcript"

definition numberedGoalsBySpec :: "nat \<Rightarrow> string \<Rightarrow> string list" where
  "numberedGoalsBySpec maxGoals transcript =
     (let fragments = map stripLeadingMarker (cutBeforeMarkers transcript);
          kept = take maxGoals (filter (\<lambda>g. g \<noteq> []) (map trim fragments))
      in if kept = [] \<and> transcript \<noteq> [] then [trim transcript] else kept)"

fun markersFollowed :: "string \<Rightarrow> bool" where
  "markersFollowed [] = True"
| "markersFollowed (c # cs) =
     ((case matchMarker (c # cs) of
         None \<Rightarrow> True
       | Some (marker, r) \<Rightarrow> (case r of [] \<Rightarrow> False | d # r' \<Rightarrow> isGoalChar d)) \<and>
      markersFollowed cs)"

fun matchesSomewhere :: "(string \<Rightarrow> nat option) \<Rightarrow> string \<Rightarrow> bool" where
  "matchesSomewhere matchAt [] = False"
| "matchesSomewhere matchAt (c # cs) = (matchAt (c # cs) \<noteq> None \<or> matchesSomewhere matchAt cs)"

definition noDelimiter :: "string \<Rightarrow> bool" where
  "noDelimiter transcript =
     (\<not> hasNumberMarker transcript \<and>
      list_all (\<lambda>pattern. \<not> matchesSomewhere (matchPattern pattern) transcript) splitPatterns)"


declare replaceMarkers.simps [simp del] splitFrom.simps [simp del] cutsFrom.simps [simp del]

subsection \<open>The session\<close>

text \<open>
  The class \<open>VoiceGoalsInput\<close>: its state, the trace of its callbacks, recognition calls
  and POSTs, and its events: the three entry points the page uses (\<open>startListening\<close>,
  \<open>stopListening\<close>, \<open>sendConfirmedGoals\<close>) and the four events of the recognition
  engine. Within the class \<open>sendGoalsToBackend\<close> is called by \<open>sendConfirmedGoals\<close> only.
\<close>

record goals_payload =
  payload_user_id :: string
  week_start :: string
  payload_goals :: "string list"
  goal_columns :: "(string \<times> string) list"

datatype goals_effect =
    OnStartListening
  | OnStopListening
  | OnResult string string string
  | OnResponse
  | OnGoalsError string string
  | OnFinalResult string "string list" bool
  | OnAuthRequired
  | RecognitionStarted
  | RecognitionStopped
  | BackendPost goals_payload

record goals_input =
  apiEndpoint :: string
  goalsUserId :: "string option"
  maxGoals :: nat
  timeZone :: int
  recognitionReady :: bool
  isListening :: bool
  lastResults :: "string list"
  goalsTrace :: "goals_effect list"

text \<open>The constructor: \<open>options.apiEndpoint || '/api/process-goals'\<close>,
  \<open>options.maxGoals || 5\<close>.\<close>

definition VoiceGoalsInput ::
  "string option \<Rightarrow> string option \<Rightarrow> nat option \<Rightarrow> int \<Rightarrow> bool \<Rightarrow> goals_input" where
  "VoiceGoalsInput endpoint uid maxGoalsOption tz supported =
     \<lparr>apiEndpoint = orElse endpoint ''/api/process-goals'',
      goalsUserId = uid,
      maxGoals = (case maxGoalsOption of None \<Rightarrow> 5 | Some n \<Rightarrow> if n = 0 then 5 else n),
      timeZone = tz,
      recognitionReady = supported,
      isListening = False,
      lastResults = [],
      goalsTrace = []\<rparr>"

definition note_effect :: "goals_effect \<Rightarrow> goals_input \<Rightarrow> goals_input" where
  "note_effect e s = s\<lparr>goalsTrace := goalsTrace s @ [e]\<rparr>"

definition goalsGetUserId :: "goals_input \<Rightarrow> string option" where
  "goalsGetUserId s =
     (case goalsUserId s of None \<Rightarrow> None | Some u \<Rightarrow> if u = [] then None else Some u)"

definition startListening :: "js_error option \<Rightarrow> goals_input \<Rightarrow> goals_input" where
  "startListening startThrows s =
     (case goalsGetUserId s of
        None \<Rightarrow> note_effect OnAuthRequired s
      | Some userId \<Rightarrow>
          if \<not> recognitionReady s
          then note_effect (OnGoalsError ''recognition_not_initialized''
                              ''Speech recognition is not initialized'') s
          else if isListening s then s
          else case startThrows of
                 None \<Rightarrow> (note_effect RecognitionStarted s)\<lparr>isListening := True\<rparr>
               | Some e \<Rightarrow>
                   note_effect (OnGoalsError ''start_error'' ''Error starting speech recognition'') s)"

definition stopListening :: "js_error option \<Rightarrow> goals_input \<Rightarrow> goals_input" where
  "stopListening stopThrows s =
     (if \<not> recognitionReady s \<or> \<not> isListening s then s
      else case stopThrows of
             None \<Rightarrow> (note_effect RecognitionStopped s)\<lparr>isListening := False\<rparr>
           | Some e \<Rightarrow>
               note_effect (OnGoalsError ''stop_error'' ''Error stopping speech recognition'') s)"

fun joinWith :: "string \<Rightarrow> string list \<Rightarrow> string" where
  "joinWith sep [] = []"
| "joinWith sep [x] = x"
| "joinWith sep (x # y # ys) = x @ sep @ joinWith sep (y # ys)"

fun goalColumns :: "nat \<Rightarrow> nat \<Rightarrow> string list \<Rightarrow> (string \<times> string) list" where
  "goalColumns maxG index [] = []"
| "goalColumns maxG index (goal # rest) =
     (if index < maxG then [(''goal_'' @ digits (index + 1), goal)] else []) @
     goalColumns maxG (index + 1) rest"

text \<open>
  \<open>sendGoalsToBackend\<close>. The environment: the current time and what the POST does.
  The result is how the promise settles.
\<close>

definition backendFailed :: "string \<Rightarrow> goals_input \<Rightarrow> (js_error + unit) \<times> goals_input" where
  "backendFailed message s =
     (Inl message,
      note_effect (OnGoalsError ''backend_error'' (''Error sending goals to backend: '' @ message)) s)"

definition sendGoalsToBackend ::
  "string list \<Rightarrow> int \<Rightarrow> http_outcome \<Rightarrow> goals_input \<Rightarrow> (js_error + unit) \<times> goals_input" where
  "sendGoalsToBackend gs now post s =
     (if gs = [] then backendFailed ''Goals must be a non-empty array'' s
      else case goalsGetUserId s of
        None \<Rightarrow>
          backendFailed ''Authentication required. Please login first.''
            (note_effect OnAuthRequired s)
      | Some userId \<Rightarrow>
          if apiEndpoint s = [] then backendFailed ''API endpoint is not configured'' s
          else
            let payload = \<lparr>payload_user_id = userId,
                           week_start = weekStartFormatted (timeZone s) now,
                           payload_goals = gs,
                           goal_columns = goalColumns (maxGoals s) 0 gs\<rparr>;
                s1 = note_effect (BackendPost payload) s
            in case post of
                 FetchRejects nm message \<Rightarrow> backendFailed (networkErrorMessage nm message) s1
               | HttpError status err statusText \<Rightarrow>
                   if status = 401
                   then backendFailed
                          (networkErrorMessage ''Error''
                             ''Authentication required. Please log in first.'')
                          (note_effect OnAuthRequired s1)
                   else backendFailed
                          (networkErrorMessage ''Error''
                            (if status = 400 then ''Bad request: '' @ orElse err ''Invalid input''
                             else if status = 429 then ''Server is busy. Please try again later.''
                             else if status \<ge> 500
                             then ''Server error: '' @ orElse err ''Internal server error''
                             else ''API error ('' @ digits status @ ''): '' @ orElse err statusText))
                          s1
               | InvalidJson \<Rightarrow>
                   backendFailed (networkErrorMessage ''SyntaxError'' ''Unexpected token'') s1
               | HttpOk success err stack \<Rightarrow>
                   if success = Some False
                   then backendFailed (networkErrorMessage ''Error'' (orElse err ''Unknown API error'')) s1
                   else (Inr (), s1))"

definition handleStart :: "goals_input \<Rightarrow> goals_input" where
  "handleStart s = note_effect OnStartListening (s\<lparr>lastResults := []\<rparr>)"

definition requestConfirmation :: "string \<Rightarrow> string list \<Rightarrow> goals_input \<Rightarrow> goals_input" where
  "requestConfirmation transcript gs s = note_effect (OnFinalResult transcript gs True) s"

definition handleEnd :: "goals_input \<Rightarrow> goals_input" where
  "handleEnd s =
     (let s1 = note_effect OnStopListening (s\<lparr>isListening := False\<rparr>);
          finalTranscript = joinWith '' '' (lastResults s1)
      in if length (trim finalTranscript) > 0
         then requestConfirmation finalTranscript
                (processTranscriptIntoGoals (maxGoals s1) finalTranscript) s1
         else s1)"

definition sendConfirmedGoals ::
  "string list \<Rightarrow> int \<Rightarrow> http_outcome \<Rightarrow> goals_input \<Rightarrow> goals_input" where
  "sendConfirmedGoals gs now post s =
     (case goalsGetUserId s of
        None \<Rightarrow> note_effect OnAuthRequired s
      | Some userId \<Rightarrow>
          (case sendGoalsToBackend gs now post s of
             (Inr response, s1) \<Rightarrow> note_effect OnResponse s1
           | (Inl message, s1) \<Rightarrow>
               note_effect (OnGoalsError ''process_error'' (''Error processing goals: '' @ message)) s1))"

text \<open>\<open>handleResult\<close>: the results from \<open>event.resultIndex\<close> on, each a transcript and
  whether it is final.\<close>

fun collectResults ::
  "(string \<times> bool) list \<Rightarrow> string \<times> string \<times> string list \<Rightarrow> string \<times> string \<times> string list" where
  "collectResults [] acc = acc"
| "collectResults ((transcript, isFinal) # rest) (interim, final, results) =
     collectResults rest
       (if isFinal then (interim, final @ transcript, results @ [trim transcript])
        else (interim @ transcript, final, results))"

definition handleResult :: "(string \<times> bool) list \<Rightarrow> goals_input \<Rightarrow> goals_input" where
  "handleResult results s =
     (case collectResults results ([], [], lastResults s) of
        (interimTranscript, finalTranscript, collected) \<Rightarrow>
          note_effect (OnResult interimTranscript finalTranscript
                         (joinWith '' '' collected @ '' '' @ interimTranscript))
            (s\<lparr>lastResults := collected\<rparr>))"

definition handleRecognitionError :: "string \<Rightarrow> goals_input \<Rightarrow> goals_input" where
  "handleRecognitionError err s =
     note_effect (OnGoalsError err (''Speech recognition error: '' @ err)) (s\<lparr>isListening := False\<rparr>)"

datatype goals_event =
    StartListening "js_error option"
  | StopListening "js_error option"
  | RecognitionOnStart
  | RecognitionOnEnd
  | RecognitionOnResult "(string \<times> bool) list"
  | RecognitionOnError string
  | SendConfirmedGoals "string list" int http_outcome

fun goalsStep :: "goals_event \<Rightarrow> goals_input \<Rightarrow> goals_input" where
  "goalsStep (StartListening startThrows) s = startListening startThrows s"
| "goalsStep (StopListening stopThrows) s = stopListening stopThrows s"
| "goalsStep RecognitionOnStart s = handleStart s"
| "goalsStep RecognitionOnEnd s = handleEnd s"
| "goalsStep (RecognitionOnResult results) s = handleResult results s"
| "goalsStep (RecognitionOnError err) s = handleRecognitionError err s"
| "goalsStep (SendConfirmedGoals gs now post) s = sendConfirmedGoals gs now post s"

definition runGoals :: "goals_event list \<Rightarrow> goals_input \<Rightarrow> goals_input" where
  "runGoals evs s = fold goalsStep evs s"

fun backendPosts :: "goals_effect list \<Rightarrow> goals_payload list" where
  "backendPosts [] = []"
| "backendPosts (BackendPost p # es) = p # backendPosts es"
| "backendPosts (e # es) = backendPosts es"

fun confirmedGoals :: "goals_event list \<Rightarrow> string list list" where
  "confirmedGoals [] = []"
| "confirmedGoals (SendConfirmedGoals gs now post # evs) = gs # confirmedGoals evs"
| "confirmedGoals (ev # evs) = confirmedGoals evs"

fun finalResults :: "goals_effect list \<Rightarrow> (string \<times> string list \<times> bool) list" where
  "finalResults [] = []"
| "finalResults (OnFinalResult t gs c # es) = (t, gs, c) # finalResults es"
| "finalResults (e # es) = finalResults es"

definition goalsDemo :: goals_input where
  "goalsDemo = VoiceGoalsInput None (Some ''user-1'') None (-300) True"

definition goalsDemoEvents :: "goals_event list" where
  "goalsDemoEvents =
     [StartListening None, RecognitionOnStart,
      RecognitionOnResult [(''1. exercise daily 2) read more '', True)],
      RecognitionOnResult [(''3. medi'', False)],
      RecognitionOnResult [(''3. meditate'', True)],
      StopListening None, RecognitionOnEnd,
      SendConfirmedGoals [''exercise daily'', ''read more'', ''meditate''] 1704938400000
        (HttpOk (Some True) None None)]"

definition listeningDone :: goals_input where
  "listeningDone = runGoals (take 6 goalsDemoEvents) goalsDemo"

definition numberedTranscript :: string where
  "numberedTranscript = ''1. exercise daily 2) read more 3. meditate''"

section \<open>Properties of the dispatcher\<close>

lemma attempts_append: "attempts (xs @ ys) = attempts xs @ attempts ys"
  by (induction xs rule: attempts.induct) auto

lemma emit_fields [simp]:
  "providers (emit e s) = providers s"
  "providerNames (emit e s) = providerNames s"
  "currentProviderIndex (emit e s) = currentProviderIndex s"
  "isPlaying (emit e s) = isPlaying s"
  "currentAudio (emit e s) = currentAudio s"
  "effects (emit e s) = effects s @ [e]"
  by (simp_all add: emit_def)

lemma registered_current:
  assumes "registered s" "providerNames s \<noteq> []"
  shows "\<exists>p. getCurrentProvider s = Some p \<and> name p = providerNames s ! currentProviderIndex s"
proof -
  from assms have i: "currentProviderIndex s < length (providerNames s)"
    by (simp add: registered_def)
  from assms have "list_all (\<lambda>n. case providers s n of None \<Rightarrow> False | Some p \<Rightarrow> name p = n)
               (providerNames s)" by (simp add: registered_def)
  with i have "case providers s (providerNames s ! currentProviderIndex s) of None \<Rightarrow> False
     | Some p \<Rightarrow> name p = providerNames s ! currentProviderIndex s"
    by (simp add: list_all_length)
  with i assms(2) show ?thesis
    by (auto simp: getCurrentProvider_def split: option.splits)
qed

lemma stop_fields [simp]:
  "providers (stop s) = providers s"
  "providerNames (stop s) = providerNames s"
  "currentProviderIndex (stop s) = currentProviderIndex s"
  by (simp_all add: stop_def Let_def split: option.splits)

lemma stop_attempts [simp]: "attempts (effects (stop s)) = attempts (effects s)"
  by (simp add: stop_def Let_def attempts_append split: option.splits)

lemma fold_runCallback_fields [simp]:
  "providers (fold runCallback cs s) = providers s"
  "providerNames (fold runCallback cs s) = providerNames s"
  "currentProviderIndex (fold runCallback cs s) = currentProviderIndex s"
  "attempts (effects (fold runCallback cs s)) = attempts (effects s)"
proof (induction cs arbitrary: s)
  case Nil
  { case 1 show ?case by simp next
    case 2 show ?case by simp next
    case 3 show ?case by simp next
    case 4 show ?case by simp }
next
  case (Cons c cs)
  { case 1 show ?case by (cases c) (simp_all add: Cons) next
    case 2 show ?case by (cases c) (simp_all add: Cons) next
    case 3 show ?case by (cases c) (simp_all add: Cons) next
    case 4 show ?case by (cases c) (simp_all add: Cons attempts_append) }
qed

text \<open>One attempt on the current provider: it is called once, and the attempt fails
  exactly when the provider's promise is rejected.\<close>

lemma tryCurrentProvider_reject:
  assumes "getCurrentProvider s = Some p" "settled r = Reject e"
  shows "\<exists>s'. tryCurrentProvider text r s = (Inl e, s') \<and>
           providers s' = providers s \<and> providerNames s' = providerNames s \<and>
           currentProviderIndex s' = currentProviderIndex s \<and>
           attempts (effects s') = attempts (effects s) @ [name p]"
  using assms by (simp add: tryCurrentProvider_def Let_def attempts_append)

lemma tryCurrentProvider_fulfil:
  assumes "getCurrentProvider s = Some p" "settled r = Fulfil a"
  shows "\<exists>s'. tryCurrentProvider text r s = (Inr (), s') \<and>
           providers s' = providers s \<and> providerNames s' = providerNames s \<and>
           currentProviderIndex s' = currentProviderIndex s \<and>
           attempts (effects s') = attempts (effects s) @ [name p]"
  using assms
  by (simp add: tryCurrentProvider_def Let_def attempts_append handleAudioElement_def
           split: option.splits)

lemma tryCurrentProvider_some:
  assumes "getCurrentProvider s = Some p"
  shows "\<exists>res s'. tryCurrentProvider text r s = (res, s') \<and>
           (res = (case settled r of Reject e \<Rightarrow> Inl e | Fulfil a \<Rightarrow> Inr ())) \<and>
           providers s' = providers s \<and> providerNames s' = providerNames s \<and>
           currentProviderIndex s' = currentProviderIndex s \<and>
           attempts (effects s') = attempts (effects s) @ [name p]"
proof (cases "settled r")
  case (Reject e)
  with tryCurrentProvider_reject [OF assms this, of "text"] show ?thesis by auto
next
  case (Fulfil a)
  with tryCurrentProvider_fulfil [OF assms this, of "text"] show ?thesis by auto
qed

lemma switchToNextProvider_many:
  assumes "2 \<le> length (providerNames s)"
  shows "\<exists>s'. switchToNextProvider s = (True, s') \<and>
           providers s' = providers s \<and> providerNames s' = providerNames s \<and>
           currentProviderIndex s' = (currentProviderIndex s + 1) mod length (providerNames s) \<and>
           isPlaying s' = isPlaying s \<and>
           attempts (effects s') = attempts (effects s)"
  using assms by (simp add: switchToNextProvider_def Let_def attempts_append)

lemma registered_switch:
  assumes "registered s" "providerNames s' = providerNames s" "providers s' = providers s"
     "currentProviderIndex s' = (currentProviderIndex s + 1) mod length (providerNames s)"
     "providerNames s \<noteq> []"
  shows "registered s'"
  using assms by (simp add: registered_def)

lemma next_index_differs:
  assumes "2 \<le> n" "i < n"
  shows "(i + 1) mod n \<noteq> (i::nat)"
proof (cases "i + 1 < n")
  case True
  then show ?thesis by simp
next
  case False
  with assms have "i + 1 = n" by simp
  with assms show ?thesis by auto
qed

text \<open>The whole of a call whose first attempt is rejected, with two providers or more.\<close>

lemma speak_first_rejects:
  assumes reg: "registered s" and many: "2 \<le> length (providerNames s)"
    and nonempty: "text \<noteq> []" and rej: "settled (run 0) = Reject e"
  shows "\<exists>res s'. speak text run s = (res, s') \<and> res = Inr () \<and>
           providers s' = providers s \<and> providerNames s' = providerNames s \<and>
           currentProviderIndex s' = (currentProviderIndex s + 1) mod length (providerNames s) \<and>
           attempts (effects s') = attempts (effects s) @
              [providerNames s ! currentProviderIndex s,
               providerNames s ! ((currentProviderIndex s + 1) mod length (providerNames s))] \<and>
           (\<forall>e2. settled (run 1) = Reject e2 \<longrightarrow>
               \<not> isPlaying s' \<and> (\<exists>es. effects s' = es @ [OnError e2]))"
proof -
  define s1 where "s1 = (stop s)\<lparr>isPlaying := True\<rparr>"
  have ne: "providerNames s \<noteq> []" using many by auto
  have f1: "providers s1 = providers s" "providerNames s1 = providerNames s"
    "currentProviderIndex s1 = currentProviderIndex s"
    "attempts (effects s1) = attempts (effects s)"
    by (simp_all add: s1_def)
  have reg1: "registered s1" using reg f1 by (simp add: registered_def)
  from registered_current [OF reg1] ne f1 obtain p where
    p: "getCurrentProvider s1 = Some p" "name p = providerNames s ! currentProviderIndex s"
    by auto
  from tryCurrentProvider_reject [OF p(1) rej, of "text"] obtain s2 where
    s2: "tryCurrentProvider text (run 0) s1 = (Inl e, s2)"
      "providers s2 = providers s1" "providerNames s2 = providerNames s1"
      "currentProviderIndex s2 = currentProviderIndex s1"
      "attempts (effects s2) = attempts (effects s1) @ [name p]" by blast
  have many2: "2 \<le> length (providerNames s2)" using many s2 f1 by simp
  from switchToNextProvider_many [OF many2] obtain s3 where
    s3: "switchToNextProvider s2 = (True, s3)" "providers s3 = providers s2"
      "providerNames s3 = providerNames s2"
      "currentProviderIndex s3 = (currentProviderIndex s2 + 1) mod length (providerNames s2)"
      "attempts (effects s3) = attempts (effects s2)" by blast
  have reg2: "registered s2" using reg1 s2 by (simp add: registered_def)
  have reg3: "registered s3"
    using registered_switch [OF reg2 s3(3) s3(2) s3(4)] ne s2 f1 by simp
  from registered_current [OF reg3] ne s3 s2 f1 obtain q where
    q: "getCurrentProvider s3 = Some q"
       "name q = providerNames s ! ((currentProviderIndex s + 1) mod length (providerNames s))"
    by auto
  from tryCurrentProvider_some [OF q(1), of "text" "run 1"] obtain res4 s4 where
    s4: "tryCurrentProvider text (run 1) s3 = (res4, s4)"
      "res4 = (case settled (run 1) of Reject e \<Rightarrow> Inl e | Fulfil a \<Rightarrow> Inr ())"
      "providers s4 = providers s3" "providerNames s4 = providerNames s3"
      "currentProviderIndex s4 = currentProviderIndex s3"
      "attempts (effects s4) = attempts (effects s3) @ [name q]" by blast
  have hp: "hasProviders s" using ne by (simp add: hasProviders_def)
  show ?thesis
  proof (cases "settled (run 1)")
    case (Reject e2)
    then have "speak text run s = (Inr (), emit (OnError e2) (s4\<lparr>isPlaying := False\<rparr>))"
      using nonempty hp s2 s3 s4 by (simp add: speak_def s1_def [symmetric])
    then show ?thesis using Reject s4 s3 s2 f1 p q
      by (simp add: attempts_append)
  next
    case (Fulfil a)
    then have "speak text run s = (Inr (), s4)"
      using nonempty hp s2 s3 s4 by (simp add: speak_def s1_def [symmetric])
    then show ?thesis using Fulfil s4 s3 s2 f1 p q by simp
  qed
qed

lemma trackerTTS_eq:
  "trackerTTS = \<lparr>providers = [''WebSpeech'' \<mapsto> webSpeechProvider, ''FishAudio'' \<mapsto> fishAudioProvider],
     providerNames = [''WebSpeech'', ''FishAudio''], currentProviderIndex = 0,
     isPlaying = False, currentAudio = None, effects = []\<rparr>"
  by (simp add: trackerTTS_def TTSService_def webSpeechProvider_def fishAudioProvider_def)

lemma trackerTTS_registered: "registered trackerTTS"
  by (simp add: trackerTTS_eq registered_def webSpeechProvider_def fishAudioProvider_def)

text \<open>The constructor establishes \<open>registered\<close>, and \<open>speak\<close> keeps it.\<close>

lemma addProviders_names:
  "providerNames (addProviders ps s) = providerNames s @ filter (\<lambda>n. n \<noteq> []) (map name ps)"
  by (induction ps arbitrary: s) auto

lemma indexOf_less: "x \<in> set xs \<Longrightarrow> indexOf xs x < length xs"
  by (induction xs) auto

lemma addProviders_index [simp]:
  "currentProviderIndex (addProviders ps s) = currentProviderIndex s"
  by (induction ps arbitrary: s) auto

lemma addProviders_stored:
  "stored s \<Longrightarrow> stored (addProviders ps s)"
proof (induction ps arbitrary: s)
  case Nil
  then show ?case by simp
next
  case (Cons p ps)
  show ?case
  proof (cases "name p = []")
    case True
    then show ?thesis using Cons by simp
  next
    case False
    have "stored (s\<lparr>providers := (providers s)(name p \<mapsto> p),
            providerNames := providerNames s @ [name p]\<rparr>)"
      using Cons.prems
      by (auto simp: stored_def list_all_iff split: option.splits)
    from Cons.IH [OF this] False show ?thesis by simp
  qed
qed

lemma TTSService_registered: "registered (TTSService ps d)"
proof -
  define s0 where "s0 = addProviders ps \<lparr>providers = Map.empty, providerNames = [], currentProviderIndex = 0,
                 isPlaying = False, currentAudio = None, effects = []\<rparr>"
  have st: "stored s0" unfolding s0_def by (rule addProviders_stored) (simp add: stored_def)
  have i0: "currentProviderIndex s0 = 0" by (simp add: s0_def)
  have r0: "registered s0" using st i0 by (auto simp: registered_def stored_def)
  show ?thesis
  proof (cases d)
    case None
    then show ?thesis using r0 by (simp add: TTSService_def s0_def [symmetric])
  next
    case (Some x)
    show ?thesis
    proof (cases "x \<noteq> [] \<and> x \<in> set (providerNames s0)")
      case True
      then have "indexOf (providerNames s0) x < length (providerNames s0)"
        by (simp add: indexOf_less)
      then show ?thesis using Some True st
        by (simp add: TTSService_def s0_def [symmetric] registered_def stored_def)
    next
      case False
      then show ?thesis using Some r0 by (auto simp add: TTSService_def s0_def [symmetric])
    qed
  qed
qed

lemma speak_frame:
  assumes reg: "registered s"
  shows "providers (snd (speak text run s)) = providers s \<and>
         providerNames (snd (speak text run s)) = providerNames s \<and>
         currentProviderIndex (snd (speak text run s)) =
           (if text \<noteq> [] \<and> 2 \<le> length (providerNames s) \<and> (\<exists>e. settled (run 0) = Reject e)
            then (currentProviderIndex s + 1) mod length (providerNames s)
            else currentProviderIndex s)"
proof (cases "text = [] \<or> providerNames s = []")
  case True
  then show ?thesis by (auto simp: speak_def hasProviders_def)
next
  case False
  then have nonempty: "text \<noteq> []" and ne: "providerNames s \<noteq> []" by auto
  show ?thesis
  proof (cases "2 \<le> length (providerNames s) \<and> (\<exists>e. settled (run 0) = Reject e)")
    case True
    then obtain e where rej: "settled (run 0) = Reject e" and many: "2 \<le> length (providerNames s)"
      by auto
    from speak_first_rejects [of s "text" run e] reg many nonempty rej
    show ?thesis by auto
  next
    case other: False
    define s1 where "s1 = (stop s)\<lparr>isPlaying := True\<rparr>"
    have f1: "providers s1 = providers s" "providerNames s1 = providerNames s"
      "currentProviderIndex s1 = currentProviderIndex s"
      by (simp_all add: s1_def)
    have reg1: "registered s1" using reg f1 by (simp add: registered_def)
    from registered_current [OF reg1] ne f1 obtain p where
      p: "getCurrentProvider s1 = Some p" by auto
    from tryCurrentProvider_some [OF p, of "text" "run 0"] obtain res2 s2 where
      s2: "tryCurrentProvider text (run 0) s1 = (res2, s2)"
        "res2 = (case settled (run 0) of Reject e \<Rightarrow> Inl e | Fulfil a \<Rightarrow> Inr ())"
        "providers s2 = providers s1" "providerNames s2 = providerNames s1"
        "currentProviderIndex s2 = currentProviderIndex s1" by blast
    have hp: "hasProviders s" using ne by (simp add: hasProviders_def)
    show ?thesis
    proof (cases "settled (run 0)")
      case (Fulfil a)
      then have "speak text run s = (Inr (), s2)"
        using nonempty hp s2 by (simp add: speak_def s1_def [symmetric])
      then show ?thesis using s2 f1 Fulfil by simp
    next
      case (Reject e)
      with other have "length (providerNames s2) \<le> 1" using s2 f1 by auto
      then have "switchToNextProvider s2 = (False, s2)"
        by (simp add: switchToNextProvider_def)
      then have "speak text run s = (Inr (), emit (OnError e) (s2\<lparr>isPlaying := False\<rparr>))"
        using nonempty hp s2 Reject by (simp add: speak_def s1_def [symmetric])
      then show ?thesis using s2 f1 Reject other by auto
    qed
  qed
qed

lemma speak_registered:
  assumes reg: "registered s"
  shows "registered (snd (speak text run s))"
proof (cases "providerNames s = []")
  case True
  with speak_frame [OF reg, of "text" run] reg show ?thesis
    by (simp add: registered_def)
next
  case False
  then have lt: "(currentProviderIndex s + 1) mod length (providerNames s) < length (providerNames s)"
    by simp
  from reg False have "currentProviderIndex s < length (providerNames s)"
    by (simp add: registered_def)
  with lt have "currentProviderIndex (snd (speak text run s)) < length (providerNames s)"
    using speak_frame [OF reg, of "text" run] by (simp split: if_splits)
  with speak_frame [OF reg, of "text" run] reg show ?thesis
    by (simp add: registered_def)
qed

lemma failsOver_speak:
  "failsOver (CallSpeak text run) = (text \<noteq> [] \<and> (\<exists>e. settled (run 0) = Reject e))"
  by (cases "settled (run 0)") simp_all

lemma ttsStep_frame:
  assumes reg: "registered s" and many: "2 \<le> length (providerNames s)"
  shows "providers (ttsStep c s) = providers s \<and>
         providerNames (ttsStep c s) = providerNames s \<and>
         currentProviderIndex (ttsStep c s) =
           (if failsOver c then (currentProviderIndex s + 1) mod length (providerNames s)
            else currentProviderIndex s)"
proof (cases c)
  case (CallSpeak t run)
  with speak_frame [OF reg, of t run] many show ?thesis
    by (simp add: failsOver_speak del: failsOver.simps)
next
  case CallStop
  then show ?thesis by simp
next
  case CallSwitchToNextProvider
  with switchToNextProvider_many [OF many] show ?thesis by auto
next
  case AudioEnded
  then show ?thesis by (simp add: audioEnded_def)
next
  case AudioError
  then show ?thesis by (simp add: audioError_def)
next
  case (AudioPlayRejected e)
  then show ?thesis by (simp add: audioPlayRejected_def)
qed

lemma ttsStep_registered:
  assumes reg: "registered s" and many: "2 \<le> length (providerNames s)"
  shows "registered (ttsStep c s)"
proof -
  from many have "0 < length (providerNames s)" by arith
  then have lt: "(currentProviderIndex s + 1) mod length (providerNames s) < length (providerNames s)"
    by (rule mod_less_divisor)
  from reg many have "currentProviderIndex s < length (providerNames s)"
    by (auto simp: registered_def)
  with lt ttsStep_frame [OF reg many, of c] reg show ?thesis
    by (simp add: registered_def split: if_splits)
qed

lemma runCalls_frame:
  assumes "registered s" and "2 \<le> length (providerNames s)"
  shows "registered (runCalls cs s) \<and>
         providers (runCalls cs s) = providers s \<and>
         providerNames (runCalls cs s) = providerNames s \<and>
         currentProviderIndex (runCalls cs s) =
           (currentProviderIndex s + length (filter failsOver cs)) mod length (providerNames s)"
  using assms
proof (induction cs arbitrary: s)
  case Nil
  then have "currentProviderIndex s < length (providerNames s)"
    by (auto simp: registered_def)
  with Nil show ?case by (simp add: runCalls_def)
next
  case (Cons c cs)
  let ?n = "length (providerNames s)"
  have fr: "providers (ttsStep c s) = providers s"
    "providerNames (ttsStep c s) = providerNames s"
    "currentProviderIndex (ttsStep c s) =
       (if failsOver c then (currentProviderIndex s + 1) mod ?n else currentProviderIndex s)"
    using ttsStep_frame [OF Cons.prems, of c] by simp_all
  have reg': "registered (ttsStep c s)" using Cons.prems by (rule ttsStep_registered)
  have many': "2 \<le> length (providerNames (ttsStep c s))" using fr Cons.prems by simp
  have unfold: "runCalls (c # cs) s = runCalls cs (ttsStep c s)" by (simp add: runCalls_def)
  from Cons.IH [OF reg' many'] fr
  have ih: "registered (runCalls cs (ttsStep c s))"
    "providers (runCalls cs (ttsStep c s)) = providers s"
    "providerNames (runCalls cs (ttsStep c s)) = providerNames s"
    "currentProviderIndex (runCalls cs (ttsStep c s)) =
       (currentProviderIndex (ttsStep c s) + length (filter failsOver cs)) mod ?n"
    by simp_all
  have "(currentProviderIndex (ttsStep c s) + length (filter failsOver cs)) mod ?n =
        (currentProviderIndex s + length (filter failsOver (c # cs))) mod ?n"
  proof (cases "failsOver c")
    case True
    then have "(currentProviderIndex (ttsStep c s) + length (filter failsOver cs)) mod ?n =
        ((currentProviderIndex s + 1) mod ?n + length (filter failsOver cs)) mod ?n"
      using fr by simp
    also have "\<dots> = (currentProviderIndex s + 1 + length (filter failsOver cs)) mod ?n"
      by (rule mod_add_left_eq)
    finally show ?thesis using True by simp
  next
    case False
    then show ?thesis using fr by simp
  qed
  with ih unfold show ?case by simp
qed

text \<open>A call of \<open>speak\<close> with a text attempts the provider at the index first.\<close>

lemma speak_first_attempt:
  assumes reg: "registered s" and many: "2 \<le> length (providerNames s)"
    and nonempty: "text \<noteq> []"
  shows "\<exists>rest. attempts (effects (snd (speak text run s))) =
           attempts (effects s) @ (providerNames s ! currentProviderIndex s) # rest"
proof (cases "settled (run 0)")
  case (Reject e)
  from speak_first_rejects [of s "text" run e] reg many nonempty Reject
  show ?thesis by auto
next
  case (Fulfil a)
  define s1 where "s1 = (stop s)\<lparr>isPlaying := True\<rparr>"
  have ne: "providerNames s \<noteq> []" using many by auto
  have f1: "providers s1 = providers s" "providerNames s1 = providerNames s"
    "currentProviderIndex s1 = currentProviderIndex s"
    "attempts (effects s1) = attempts (effects s)"
    by (simp_all add: s1_def)
  have reg1: "registered s1" using reg f1 by (simp add: registered_def)
  from registered_current [OF reg1] ne f1 obtain p where
    p: "getCurrentProvider s1 = Some p" "name p = providerNames s ! currentProviderIndex s"
    by auto
  from tryCurrentProvider_fulfil [OF p(1) Fulfil, of "text"] obtain s2 where
    s2: "tryCurrentProvider text (run 0) s1 = (Inr (), s2)"
      "attempts (effects s2) = attempts (effects s1) @ [name p]" by blast
  have "hasProviders s" using ne by (simp add: hasProviders_def)
  then have "speak text run s = (Inr (), s2)"
    using nonempty s2 by (simp add: speak_def s1_def [symmetric])
  then show ?thesis using s2 f1 p by simp
qed


section \<open>Claims about the dispatcher\<close>

text \<open>
  Claim C1. A dispatcher with at least two registered providers whose current provider's
  \<open>speak\<close> is rejected during one call of \<open>TTSService.speak\<close> advances the index
  circularly, to a position different from the old one, and calls \<open>speak\<close> on the
  provider there: the call makes exactly two attempts, the first on the provider at the
  old index and the second on the provider at the next index, and no third. Provider
  names being unique, as the data model has them, the two attempts are on two different
  providers.
\<close>

theorem speak_fails_over_exactly_once:
  assumes "registered s" and "2 \<le> length (providerNames s)" and "text \<noteq> []"
    and "settled (run 0) = Reject e"
  shows "currentProviderIndex (snd (speak text run s)) =
           (currentProviderIndex s + 1) mod length (providerNames s) \<and>
         currentProviderIndex (snd (speak text run s)) \<noteq> currentProviderIndex s \<and>
         attempts (effects (snd (speak text run s))) =
           attempts (effects s) @
             [providerNames s ! currentProviderIndex s,
              providerNames s ! ((currentProviderIndex s + 1) mod length (providerNames s))] \<and>
         (distinct (providerNames s) \<longrightarrow>
            providerNames s ! currentProviderIndex s \<noteq>
            providerNames s ! ((currentProviderIndex s + 1) mod length (providerNames s)))"
proof -
  let ?n = "length (providerNames s)" and ?i = "currentProviderIndex s"
  from assms have i: "?i < ?n" by (auto simp: registered_def)
  from i have "0 < ?n" by arith
  then have j: "(?i + 1) mod ?n < ?n" by (rule mod_less_divisor)
  have d: "(?i + 1) mod ?n \<noteq> ?i" using next_index_differs [OF assms(2) i] .
  from speak_first_rejects [of s "text" run e] assms obtain res s' where
    s': "speak text run s = (res, s')" "currentProviderIndex s' = (?i + 1) mod ?n"
      "attempts (effects s') = attempts (effects s) @
         [providerNames s ! ?i, providerNames s ! ((?i + 1) mod ?n)]"
    by blast
  have "distinct (providerNames s) \<longrightarrow>
          providerNames s ! ?i \<noteq> providerNames s ! ((?i + 1) mod ?n)"
    using i j d by (auto simp: nth_eq_iff_index_eq)
  with s' d show ?thesis by simp
qed

text \<open>The tracker's own dispatcher, its on-device provider failing.\<close>

theorem speak_fails_over_exactly_once_witness:
  "registered trackerTTS \<and> 2 \<le> length (providerNames trackerTTS) \<and> ''hello'' \<noteq> [] \<and>
   settled (firstRejects 0) = Reject ''first error'' \<and>
   distinct (providerNames trackerTTS) \<and>
   currentProviderIndex (snd (speak ''hello'' firstRejects trackerTTS)) = 1 \<and>
   attempts (effects (snd (speak ''hello'' firstRejects trackerTTS))) =
     [''WebSpeech'', ''FishAudio'']"
proof -
  have h1: "registered trackerTTS" by (rule trackerTTS_registered)
  have h2: "2 \<le> length (providerNames trackerTTS)" by (simp add: trackerTTS_eq)
  have h3: "''hello'' \<noteq> []" by simp
  have h4: "settled (firstRejects 0) = Reject ''first error''" by simp
  from speak_fails_over_exactly_once [of trackerTTS "''hello''" firstRejects "''first error''"]
    h1 h2 h3 h4
  show ?thesis by (simp add: trackerTTS_eq)
qed

text \<open>
  Claim C2, as stated, fails: with both providers rejecting, the promise of \<open>speak\<close> is
  fulfilled, not rejected with the second error.
\<close>

theorem speak_double_failure_counterexample:
  "settled (bothReject 0) = Reject ''first error'' \<and>
   settled (bothReject 1) = Reject ''second error'' \<and>
   fst (speak ''hello'' bothReject trackerTTS) = Inr () \<and>
   fst (speak ''hello'' bothReject trackerTTS) \<noteq> Inl ''second error''"
  by (simp add: trackerTTS_eq speak_def hasProviders_def stop_def getCurrentProvider_def
     tryCurrentProvider_def switchToNextProvider_def Let_def emit_def
     webSpeechProvider_def fishAudioProvider_def)

text \<open>
  Claim C2, amended. When the current provider fails and the single failover attempt on
  the next provider fails too, \<open>speak\<close> hands the second provider's error to the
  caller's \<open>onError\<close> callback as its last action, clears \<open>isPlaying\<close>, and its
  promise is fulfilled.
\<close>

theorem speak_double_failure_reported:
  assumes "registered s" and "2 \<le> length (providerNames s)" and "text \<noteq> []"
    and "settled (run 0) = Reject e1" and "settled (run 1) = Reject e2"
  shows "fst (speak text run s) = Inr () \<and>
         \<not> isPlaying (snd (speak text run s)) \<and>
         (\<exists>es. effects (snd (speak text run s)) = es @ [OnError e2])"
proof -
  from speak_first_rejects [of s "text" run e1] assms(1-4) obtain res s' where
    s': "speak text run s = (res, s')" "res = Inr ()"
      "\<forall>e2. settled (run 1) = Reject e2 \<longrightarrow>
               \<not> isPlaying s' \<and> (\<exists>es. effects s' = es @ [OnError e2])"
    by blast
  with assms(5) show ?thesis by simp
qed

text \<open>The tracker's dispatcher with both providers failing.\<close>

theorem speak_double_failure_reported_witness:
  "registered trackerTTS \<and> 2 \<le> length (providerNames trackerTTS) \<and> ''hello'' \<noteq> [] \<and>
   settled (bothReject 0) = Reject ''first error'' \<and>
   settled (bothReject 1) = Reject ''second error'' \<and>
   fst (speak ''hello'' bothReject trackerTTS) = Inr () \<and>
   \<not> isPlaying (snd (speak ''hello'' bothReject trackerTTS)) \<and>
   (\<exists>es. effects (snd (speak ''hello'' bothReject trackerTTS)) = es @ [OnError ''second error''])"
proof -
  have h1: "registered trackerTTS" by (rule trackerTTS_registered)
  have h2: "2 \<le> length (providerNames trackerTTS)" by (simp add: trackerTTS_eq)
  have h3: "''hello'' \<noteq> []" by simp
  have h4: "settled (bothReject 0) = Reject ''first error''" by simp
  have h5: "settled (bothReject 1) = Reject ''second error''" by simp
  from speak_double_failure_reported
         [of trackerTTS "''hello''" bothReject "''first error''" "''second error''"]
    h1 h2 h3 h4 h5
  show ?thesis by simp
qed

text \<open>
  Claim C10, as stated, fails: the index does not stay at the fallback provider for every
  later call. On the tracker's dispatcher the first call fails over from the on-device
  provider, the configured default, to the network provider; the second call attempts
  the network provider first, fails over in its turn and leaves the index back at the
  configured default; the third call attempts the on-device provider first, not the
  fallback provider of the first call.
\<close>

theorem failover_sticky_counterexample:
  "currentProviderIndex trackerTTS = 0 \<and>
   providerNames trackerTTS = [''WebSpeech'', ''FishAudio''] \<and>
   currentProviderIndex (runCalls [CallSpeak ''one'' firstRejects] trackerTTS) = 1 \<and>
   providerNames trackerTTS ! 1 = ''FishAudio'' \<and>
   attempts (effects (runCalls [CallSpeak ''one'' firstRejects] trackerTTS)) =
     [''WebSpeech'', ''FishAudio''] \<and>
   currentProviderIndex
     (runCalls [CallSpeak ''one'' firstRejects, CallSpeak ''two'' networkRejects] trackerTTS) = 0 \<and>
   attempts (effects
     (runCalls [CallSpeak ''one'' firstRejects, CallSpeak ''two'' networkRejects] trackerTTS)) =
     [''WebSpeech'', ''FishAudio'', ''FishAudio'', ''WebSpeech''] \<and>
   attempts (effects
     (runCalls [CallSpeak ''one'' firstRejects, CallSpeak ''two'' networkRejects,
                CallSpeak ''three'' speechPlays] trackerTTS)) =
     [''WebSpeech'', ''FishAudio'', ''FishAudio'', ''WebSpeech'', ''WebSpeech'']"
  by (simp add: runCalls_def trackerTTS_eq speak_def hasProviders_def stop_def
     getCurrentProvider_def tryCurrentProvider_def switchToNextProvider_def Let_def emit_def
     handleAudioElement_def speechPlays_def webSpeechProvider_def fishAudioProvider_def)

text \<open>
  Claim C10, amended. After a call of \<open>speak\<close> whose first attempt failed, with two
  providers or more, the index is at the fallback provider when the call finishes,
  whatever the retry did. Nothing sets it back to a configured default: over any later
  sequence of calls and audio events it moves only by the circular step of
  \<open>switchToNextProvider\<close>, once for each later call of \<open>speak\<close> whose first attempt
  fails and for each direct call of \<open>switchToNextProvider\<close>, and \<open>stop\<close> and the audio
  listeners leave it where it is. Every subsequent call of \<open>speak\<close> attempts first the
  provider at the index the earlier calls left; as long as no later call has failed over,
  that is the fallback provider.
\<close>

theorem failover_persists_across_calls:
  assumes "registered s" and "2 \<le> length (providerNames s)" and "text \<noteq> []"
    and "settled (run 0) = Reject e" and "text2 \<noteq> []"
  shows "currentProviderIndex (snd (speak text run s)) =
           (currentProviderIndex s + 1) mod length (providerNames s) \<and>
         currentProviderIndex (snd (speak text run s)) \<noteq> currentProviderIndex s \<and>
         currentProviderIndex (runCalls cs (snd (speak text run s))) =
           (currentProviderIndex (snd (speak text run s)) + length (filter failsOver cs))
             mod length (providerNames s) \<and>
         (\<exists>rest. attempts (effects (snd (speak text2 run2 (runCalls cs (snd (speak text run s)))))) =
            attempts (effects (runCalls cs (snd (speak text run s)))) @
            (providerNames s ! currentProviderIndex (runCalls cs (snd (speak text run s)))) # rest) \<and>
         (\<not> list_ex failsOver cs \<longrightarrow>
            currentProviderIndex (runCalls cs (snd (speak text run s))) =
              (currentProviderIndex s + 1) mod length (providerNames s) \<and>
            (\<exists>rest. attempts (effects (snd (speak text2 run2 (runCalls cs (snd (speak text run s)))))) =
               attempts (effects (runCalls cs (snd (speak text run s)))) @
               (providerNames s ! ((currentProviderIndex s + 1) mod length (providerNames s))) # rest))"
proof -
  let ?n = "length (providerNames s)" and ?i = "currentProviderIndex s"
  define s' where "s' = snd (speak text run s)"
  define s'' where "s'' = runCalls cs s'"
  from assms have i: "?i < ?n" by (auto simp: registered_def)
  have d: "(?i + 1) mod ?n \<noteq> ?i" using next_index_differs [OF assms(2) i] .
  have reg': "registered s'" unfolding s'_def using assms(1) by (rule speak_registered)
  from speak_frame [OF assms(1), of "text" run] assms
  have fr: "providers s' = providers s" "providerNames s' = providerNames s"
    "currentProviderIndex s' = (?i + 1) mod ?n"
    by (auto simp: s'_def)
  have many': "2 \<le> length (providerNames s')" using fr assms(2) by simp
  from runCalls_frame [OF reg' many', of cs] fr
  have fr2: "registered s''" "providerNames s'' = providerNames s"
    "currentProviderIndex s'' = (currentProviderIndex s' + length (filter failsOver cs)) mod ?n"
    by (simp_all add: s''_def)
  have many2: "2 \<le> length (providerNames s'')" using fr2 assms(2) by simp
  from speak_first_attempt [OF fr2(1) many2 assms(5), of run2] fr2
  have first: "\<exists>rest. attempts (effects (snd (speak text2 run2 s''))) =
            attempts (effects s'') @ (providerNames s ! currentProviderIndex s'') # rest"
    by simp
  have quiet: "\<not> list_ex failsOver cs \<Longrightarrow> currentProviderIndex s'' = (?i + 1) mod ?n"
  proof -
    assume "\<not> list_ex failsOver cs"
    then have "filter failsOver cs = []" by (simp add: list_ex_iff filter_empty_conv)
    with fr2 fr show ?thesis by simp
  qed
  show ?thesis
    unfolding s''_def [symmetric] s'_def [symmetric]
    using fr d fr2(3) first quiet by auto
qed

text \<open>
  The tracker's dispatcher after a call in which both providers failed: a \<open>stop\<close>, a
  call that plays and the end of its audio leave the index at the network provider, and
  the call after them attempts the network provider first.
\<close>

theorem failover_persists_across_calls_witness:
  "registered trackerTTS \<and> 2 \<le> length (providerNames trackerTTS) \<and> ''hello'' \<noteq> [] \<and>
   settled (bothReject 0) = Reject ''first error'' \<and> ''again'' \<noteq> [] \<and>
   \<not> list_ex failsOver [CallStop, CallSpeak ''next'' audioPlays, AudioEnded] \<and>
   currentProviderIndex trackerTTS = 0 \<and>
   currentProviderIndex (snd (speak ''hello'' bothReject trackerTTS)) = 1 \<and>
   currentProviderIndex
     (runCalls [CallStop, CallSpeak ''next'' audioPlays, AudioEnded]
        (snd (speak ''hello'' bothReject trackerTTS))) = 1 \<and>
   (\<exists>rest. attempts (effects (snd (speak ''again'' audioPlays
        (runCalls [CallStop, CallSpeak ''next'' audioPlays, AudioEnded]
           (snd (speak ''hello'' bothReject trackerTTS)))))) =
      attempts (effects (runCalls [CallStop, CallSpeak ''next'' audioPlays, AudioEnded]
           (snd (speak ''hello'' bothReject trackerTTS)))) @ ''FishAudio'' # rest)"
proof -
  have h1: "registered trackerTTS" by (rule trackerTTS_registered)
  have h2: "2 \<le> length (providerNames trackerTTS)" by (simp add: trackerTTS_eq)
  have h3: "''hello'' \<noteq> []" by simp
  have h4: "settled (bothReject 0) = Reject ''first error''" by simp
  have h5: "''again'' \<noteq> []" by simp
  have h6: "\<not> list_ex failsOver [CallStop, CallSpeak ''next'' audioPlays, AudioEnded]"
    by (simp add: audioPlays_def)
  from failover_persists_across_calls
         [of trackerTTS "''hello''" bothReject "''first error''" "''again''"
             "[CallStop, CallSpeak ''next'' audioPlays, AudioEnded]" audioPlays]
    h1 h2 h3 h4 h5 h6
  show ?thesis by (simp add: trackerTTS_eq)
qed


section \<open>Properties of the check-in session\<close>

lemma record_effect_fields [simp]:
  "habitStack (record_effect e s) = habitStack s"
  "responses (record_effect e s) = responses s"
  "currentHabitIndex (record_effect e s) = currentHabitIndex s"
  "isProcessing (record_effect e s) = isProcessing s"
  "reflection (record_effect e s) = reflection s"
  "recognitionContext (record_effect e s) = recognitionContext s"
  "hasRecognition (record_effect e s) = hasRecognition s"
  "resolvedUserId (record_effect e s) = resolvedUserId s"
  "formattedDate (record_effect e s) = formattedDate s"
  "speakCalls (record_effect e s) = speakCalls s"
  "startCalls (record_effect e s) = startCalls s"
  "trace (record_effect e s) = trace s @ [e]"
  by (simp_all add: record_effect_def)

lemma updateStatus_fields [simp]:
  "habitStack (updateStatus m s) = habitStack s"
  "responses (updateStatus m s) = responses s"
  "currentHabitIndex (updateStatus m s) = currentHabitIndex s"
  "isProcessing (updateStatus m s) = isProcessing s"
  "reflection (updateStatus m s) = reflection s"
  "recognitionContext (updateStatus m s) = recognitionContext s"
  "hasRecognition (updateStatus m s) = hasRecognition s"
  "resolvedUserId (updateStatus m s) = resolvedUserId s"
  "formattedDate (updateStatus m s) = formattedDate s"
  "speakCalls (updateStatus m s) = speakCalls s"
  "startCalls (updateStatus m s) = startCalls s"
  "trace (updateStatus m s) = trace s @ [Status m]"
  by (simp_all add: updateStatus_def)

lemma handleError_fields [simp]:
  "habitStack (handleError m s) = habitStack s"
  "responses (handleError m s) = responses s"
  "currentHabitIndex (handleError m s) = currentHabitIndex s"
  "isProcessing (handleError m s) = isProcessing s"
  "reflection (handleError m s) = reflection s"
  "recognitionContext (handleError m s) = recognitionContext s"
  "hasRecognition (handleError m s) = hasRecognition s"
  "resolvedUserId (handleError m s) = resolvedUserId s"
  "formattedDate (handleError m s) = formattedDate s"
  "speakCalls (handleError m s) = speakCalls s"
  "startCalls (handleError m s) = startCalls s"
  "trace (handleError m s) =
     trace s @ [Status (''Error: '' @ userMessageFor m), ErrorCallback (userMessageFor m) m]"
  by (simp_all add: handleError_def Let_def)

lemma speakText_fields:
  assumes "speakText env t s = (r, s')"
  shows "habitStack s' = habitStack s" "responses s' = responses s"
    "currentHabitIndex s' = currentHabitIndex s" "isProcessing s' = isProcessing s"
    "reflection s' = reflection s" "recognitionContext s' = recognitionContext s"
    "hasRecognition s' = hasRecognition s" "resolvedUserId s' = resolvedUserId s"
    "formattedDate s' = formattedDate s" "startCalls s' = startCalls s"
  using assms by (auto simp: speakText_def Let_def split: if_splits option.splits)


lemma habitsLeft_simps [simp]:
  "habitsLeft (updateStatus m s) = habitsLeft s"
  "habitsLeft (record_effect e s) = habitsLeft s"
  "habitsLeft (handleError m s) = habitsLeft s"
  "habitsLeft (s\<lparr>recognitionContext := c\<rparr>) = habitsLeft s"
  "habitsLeft (s\<lparr>startCalls := k\<rparr>) = habitsLeft s"
  by (simp_all add: habitsLeft_def)

lemma speakText_trace:
  "speakText env t s = (r, s') \<Longrightarrow> \<exists>rest. trace s' = trace s @ rest"
  by (auto simp: speakText_def Let_def split: if_splits option.splits)

lemma speakText_responses:
  "speakText env t s = (r, s') \<Longrightarrow> responses s' = responses s"
  by (auto simp: speakText_def Let_def split: if_splits option.splits)

lemma submitFailed_frame [simp]:
  "responses (submitFailed m s) = responses s"
  "habitStack (submitFailed m s) = habitStack s"
  "trace (submitFailed m s) = trace s @
     [Status (''Error: '' @ userMessageFor (''Error submitting daily log: '' @ m)),
      ErrorCallback (userMessageFor (''Error submitting daily log: '' @ m))
                    (''Error submitting daily log: '' @ m),
      Status (''Error: '' @ m),
      CompleteCallback (responses s) (reflection s) False (Some m)]"
  by (simp_all add: submitFailed_def Let_def)

lemma submitDailyLog_responses: "responses (submitDailyLog env s) = responses s"
  by (auto simp: submitDailyLog_def checkAuthentication_def Let_def
           split: prod.splits option.splits http_outcome.splits if_splits
           dest: speakText_responses)

lemma speakText_index:
  "speakText env t s = (r, s') \<Longrightarrow> currentHabitIndex s' = currentHabitIndex s"
  by (auto simp: speakText_def Let_def split: if_splits option.splits)

lemma submitFailed_index [simp]:
  "currentHabitIndex (submitFailed m s) = currentHabitIndex s"
  by (simp add: submitFailed_def Let_def)

lemma submitDailyLog_index: "currentHabitIndex (submitDailyLog env s) = currentHabitIndex s"
  by (auto simp: submitDailyLog_def checkAuthentication_def Let_def
           split: prod.splits option.splits http_outcome.splits if_splits
           dest: speakText_index)

lemma submitDailyLog_trace: "\<exists>rest. trace (submitDailyLog env s) = trace s @ rest"
proof -
  have sp: "\<And>t s r s'. speakText env t s = (r, s') \<Longrightarrow> \<exists>rest. trace s' = trace s @ rest"
    by (rule speakText_trace)
  show ?thesis
    by (auto simp: submitDailyLog_def checkAuthentication_def Let_def
           split: prod.splits option.splits http_outcome.splits if_splits
           dest!: sp)
qed

lemma askForReflection_responses: "responses (askForReflection env s) = responses s"
  by (auto simp: askForReflection_def Let_def submitDailyLog_responses
           split: prod.splits option.splits if_splits dest: speakText_responses)

lemma askForReflection_index:
  "currentHabitIndex (askForReflection env s) = currentHabitIndex s"
  by (auto simp: askForReflection_def Let_def submitDailyLog_index
           split: prod.splits option.splits if_splits dest: speakText_index)

lemma askForReflection_trace:
  "\<exists>rest. trace (askForReflection env s) =
      trace s @ Status ''All habits processed. Would you like to add a reflection?'' # rest"
proof -
  define s1 where "s1 = updateStatus ''All habits processed. Would you like to add a reflection?'' s"
  have t1: "trace s1 = trace s @ [Status ''All habits processed. Would you like to add a reflection?'']"
    by (simp add: s1_def)
  obtain r s2 where sp: "speakText env
             ''All habits are done for today. Would you like to add any reflection on your progress? If so, please speak after the beep. Otherwise, say skip.''
             s1 = (r, s2)" by (cases "speakText env
             ''All habits are done for today. Would you like to add any reflection on your progress? If so, please speak after the beep. Otherwise, say skip.''
             s1") auto
  from speakText_trace [OF sp] obtain r2 where t2: "trace s2 = trace s1 @ r2" by blast
  have sub: "\<And>x. \<exists>rest. trace (submitDailyLog env x) = trace x @ rest"
    by (rule submitDailyLog_trace)
  show ?thesis
  proof (cases r)
    case (Some e)
    from sub [of "handleError (''Error asking for reflection: '' @ e) s2"]
    show ?thesis using sp Some t1 t2
      by (auto simp: askForReflection_def s1_def [symmetric])
  next
    case None
    show ?thesis
    proof (cases "hasRecognition s2")
      case False
      from sub [of "handleError (''Error asking for reflection: '' @ ''Cannot read properties of null'')
                     (s2\<lparr>recognitionContext := Some ReflectionContext\<rparr>)"]
      show ?thesis using sp None False t1 t2
        by (auto simp: askForReflection_def s1_def [symmetric] Let_def)
    next
      case True
      show ?thesis
      proof (cases "startOutcome env (startCalls s2)")
        case none: None
        show ?thesis using sp None True none t1 t2
          by (auto simp: askForReflection_def s1_def [symmetric] Let_def)
      next
        case (Some e)
        from sub [of "handleError (''Error asking for reflection: '' @ e)
                     (s2\<lparr>recognitionContext := Some ReflectionContext, startCalls := startCalls s2 + 1\<rparr>)"]
        show ?thesis using sp None True Some t1 t2
          by (auto simp: askForReflection_def s1_def [symmetric] Let_def)
      qed
    qed
  qed
qed

lemma process_listen_frame:
  "responses (processNextHabit env s) = responses s \<and>
     currentHabitIndex s \<le> currentHabitIndex (processNextHabit env s) \<and>
     (\<exists>rest. trace (processNextHabit env s) = trace s @ rest)"
  "responses (listenForResponse env h t) = responses t \<and>
     currentHabitIndex t \<le> currentHabitIndex (listenForResponse env h t) \<and>
     (\<exists>rest. trace (listenForResponse env h t) = trace t @ rest)"
proof (induction env s and env h t rule: processNextHabit_listenForResponse.induct)
  case (1 env s)
  show ?case
  proof (cases "habitStack s")
    case None
    then show ?thesis by (simp add: processNextHabit.simps)
  next
    case (Some stack)
    show ?thesis
    proof (cases "currentHabitIndex s \<ge> length (availableHabits stack)")
      case True
      with Some askForReflection_trace [of env s] show ?thesis
        by (auto simp: processNextHabit.simps askForReflection_responses askForReflection_index)
    next
      case False
      define cur where "cur = availableHabits stack ! currentHabitIndex s"
      define s1 where "s1 = updateStatus (''Habit '' @ digits (currentHabitIndex s + 1) @ '': '' @ snd cur) s"
      define s2 where "s2 = record_effect (HabitRead (fst cur) (snd cur)) s1"
      define prompt where "prompt = ''Did you complete this habit today: '' @ snd cur @
                       ''? Please respond with yes, no, or skip.''"
      obtain r s3 where sp: "speakText env prompt s2 = (r, s3)"
        by (cases "speakText env prompt s2") auto
      from speakText_trace [OF sp] speakText_responses [OF sp] speakText_index [OF sp]
      obtain r3 where t3: "trace s3 = trace s @ r3" "responses s3 = responses s"
        "currentHabitIndex s3 = currentHabitIndex s"
        by (auto simp: s2_def s1_def)
      have unf: "processNextHabit env s =
          (case speakText env prompt s2 of
             (None, s3) \<Rightarrow> listenForResponse env cur s3
           | (Some e, s3) \<Rightarrow>
               processNextHabit env
                 ((handleError (''Error processing habit: '' @ e) s3)
                    \<lparr>currentHabitIndex := currentHabitIndex s3 + 1\<rparr>))"
        using Some False unfolding cur_def s1_def s2_def prompt_def
        by (subst processNextHabit.simps) (simp add: Let_def)
      show ?thesis
      proof (cases r)
        case None
        from "1.IH"(1) [OF Some refl False cur_def s1_def s2_def
             sp [unfolded prompt_def, symmetric] None]
        have "responses (listenForResponse env cur s3) = responses s3 \<and>
              currentHabitIndex s3 \<le> currentHabitIndex (listenForResponse env cur s3) \<and>
              (\<exists>rest. trace (listenForResponse env cur s3) = trace s3 @ rest)" .
        moreover have "processNextHabit env s = listenForResponse env cur s3"
          using unf sp None by simp
        ultimately show ?thesis using t3 by auto
      next
        case (Some e)
        let ?s4 = "(handleError (''Error processing habit: '' @ e) s3)
                        \<lparr>currentHabitIndex := currentHabitIndex s3 + 1\<rparr>"
        from "1.IH"(2) [OF \<open>habitStack s = Some stack\<close> refl False cur_def s1_def s2_def
             sp [unfolded prompt_def, symmetric] Some]
        have "responses (processNextHabit env ?s4) = responses ?s4 \<and>
              currentHabitIndex ?s4 \<le> currentHabitIndex (processNextHabit env ?s4) \<and>
              (\<exists>rest. trace (processNextHabit env ?s4) = trace ?s4 @ rest)" .
        moreover have "processNextHabit env s = processNextHabit env ?s4"
          using unf sp Some by simp
        ultimately show ?thesis using t3 by auto
      qed
    qed
  qed
next
  case (2 env h t)
  show ?case
  proof (cases "hasRecognition t")
    case False
    then show ?thesis by (simp add: listenForResponse.simps)
  next
    case True
    define s1 where "s1 = (updateStatus ''Listening for your response...'' t)
                   \<lparr>recognitionContext := Some (HabitContext (fst h) (snd h))\<rparr>"
    define s2 where "s2 = s1\<lparr>startCalls := startCalls s1 + 1\<rparr>"
    show ?thesis
    proof (cases "startOutcome env (startCalls s1)")
      case None
      then have "listenForResponse env h t = record_effect RecognitionStart s2"
        using True unfolding s1_def s2_def
        by (subst listenForResponse.simps) (simp add: Let_def)
      then show ?thesis by (simp add: s2_def s1_def)
    next
      case (Some e)
      let ?s3 = "(handleError (''Error starting speech recognition: '' @ e) s2)
                    \<lparr>currentHabitIndex := currentHabitIndex s2 + 1\<rparr>"
      have nn: "\<not> \<not> hasRecognition t" using True by simp
      from "2.IH" [OF nn s1_def refl s2_def Some]
      have "responses (processNextHabit env ?s3) = responses ?s3 \<and>
              currentHabitIndex ?s3 \<le> currentHabitIndex (processNextHabit env ?s3) \<and>
              (\<exists>rest. trace (processNextHabit env ?s3) = trace ?s3 @ rest)" .
      moreover have "listenForResponse env h t = processNextHabit env ?s3"
        using True Some unfolding s1_def s2_def
        by (subst listenForResponse.simps) (simp add: Let_def)
      ultimately show ?thesis by (auto simp: s2_def s1_def)
    qed
  qed
qed

lemma processNextHabit_unfold:
  assumes "habitStack s = Some stack"
    and "currentHabitIndex s < length (availableHabits stack)"
  shows "processNextHabit env s =
     (case speakText env
             (''Did you complete this habit today: '' @
              snd (availableHabits stack ! currentHabitIndex s) @
              ''? Please respond with yes, no, or skip.'')
             (record_effect
                (HabitRead (fst (availableHabits stack ! currentHabitIndex s))
                           (snd (availableHabits stack ! currentHabitIndex s)))
                (updateStatus (''Habit '' @ digits (currentHabitIndex s + 1) @ '': '' @
                               snd (availableHabits stack ! currentHabitIndex s)) s)) of
        (None, s3) \<Rightarrow> listenForResponse env (availableHabits stack ! currentHabitIndex s) s3
      | (Some e, s3) \<Rightarrow>
          processNextHabit env
            ((handleError (''Error processing habit: '' @ e) s3)
               \<lparr>currentHabitIndex := currentHabitIndex s3 + 1\<rparr>))"
  using assms by (subst processNextHabit.simps) (simp add: Let_def)

lemma processNextHabit_reads_next:
  assumes "habitStack s = Some stack"
    and "currentHabitIndex s < length (availableHabits stack)"
  shows "\<exists>rest. trace (processNextHabit env s) =
           trace s @
           [Status (''Habit '' @ digits (currentHabitIndex s + 1) @ '': '' @
                    snd (availableHabits stack ! currentHabitIndex s)),
            HabitRead (fst (availableHabits stack ! currentHabitIndex s))
                      (snd (availableHabits stack ! currentHabitIndex s))] @ rest"
proof -
  let ?cur = "availableHabits stack ! currentHabitIndex s"
  let ?s2 = "record_effect (HabitRead (fst ?cur) (snd ?cur))
                (updateStatus (''Habit '' @ digits (currentHabitIndex s + 1) @ '': '' @ snd ?cur) s)"
  let ?prompt = "''Did you complete this habit today: '' @ snd ?cur @
              ''? Please respond with yes, no, or skip.''"
  obtain r s3 where sp: "speakText env ?prompt ?s2 = (r, s3)"
    by (cases "speakText env ?prompt ?s2") auto
  from speakText_trace [OF sp] obtain r3 where t3: "trace s3 = trace ?s2 @ r3" by blast
  show ?thesis
  proof (cases r)
    case None
    from process_listen_frame(2) [of env ?cur s3] obtain r4 where
      "trace (listenForResponse env ?cur s3) = trace s3 @ r4" by blast
    then show ?thesis
      using processNextHabit_unfold [OF assms, of env] sp None t3 by simp
  next
    case (Some e)
    let ?s4 = "(handleError (''Error processing habit: '' @ e) s3)
               \<lparr>currentHabitIndex := currentHabitIndex s3 + 1\<rparr>"
    from process_listen_frame(1) [of env ?s4] obtain r4 where
      "trace (processNextHabit env ?s4) = trace ?s4 @ r4" by blast
    then show ?thesis
      using processNextHabit_unfold [OF assms, of env] sp Some t3 by simp
  qed
qed

lemma processNextHabit_after_last:
  assumes "habitStack s = Some stack"
    and "length (availableHabits stack) \<le> currentHabitIndex s"
  shows "processNextHabit env s = askForReflection env s"
  using assms by (subst processNextHabit.simps) (simp add: Let_def)

lemma startsWith_iff: "startsWith s p \<longleftrightarrow> (\<exists>rest. s = p @ rest)"
  by (induction s p rule: startsWith.induct) auto

lemma includesStr_iff: "includesStr t m \<longleftrightarrow> (\<exists>before after. t = before @ m @ after)"
proof (induction t)
  case Nil
  then show ?case by auto
next
  case (Cons c cs)
  show ?case
  proof
    assume "includesStr (c # cs) m"
    then consider "startsWith (c # cs) m" | "includesStr cs m" by auto
    then show "\<exists>before after. c # cs = before @ m @ after"
    proof cases
      case 1
      then obtain rest where "c # cs = m @ rest" by (auto simp: startsWith_iff)
      then have "c # cs = [] @ m @ rest" by simp
      then show ?thesis by blast
    next
      case 2
      with Cons obtain b a where "cs = b @ m @ a" by auto
      then have "c # cs = (c # b) @ m @ a" by simp
      then show ?thesis by blast
    qed
  next
    assume "\<exists>before after. c # cs = before @ m @ after"
    then obtain b a where ba: "c # cs = b @ m @ a" by blast
    show "includesStr (c # cs) m"
    proof (cases b)
      case Nil
      with ba have "startsWith (c # cs) m" by (auto simp: startsWith_iff)
      then show ?thesis by simp
    next
      case (Cons b0 bs)
      with ba have "cs = bs @ m @ a" by simp
      with Cons.IH have "includesStr cs m" by blast
      then show ?thesis by simp
    qed
  qed
qed

lemma classifyResponse_spec: "classifyResponse t = classifyBySpec t"
  by (simp add: classifyResponse_def classifyBySpec_def occursIn_def includesStr_iff)

lemma classifyResponse_range:
  "classifyResponse t = Some r \<Longrightarrow> r = ''yes'' \<or> r = ''no'' \<or> r = ''skip''"
  by (auto simp: classifyResponse_def split: if_splits)

lemma of_char_char_of_small: "n < 256 \<Longrightarrow> of_char (char_of n) = (n::nat)"
  by simp

lemma isWhiteSpace_toLowerChar [simp]: "isWhiteSpace (toLowerChar c) = isWhiteSpace c"
proof -
  let ?n = "of_char c :: nat"
  show ?thesis
  proof (cases "(65 \<le> ?n \<and> ?n \<le> 90) \<or> (192 \<le> ?n \<and> ?n \<le> 214) \<or> (216 \<le> ?n \<and> ?n \<le> 222)")
    case False
    then have "toLowerChar c = c" unfolding toLowerChar_def Let_def by (rule if_not_P)
    then show ?thesis by simp
  next
    case True
    then have lt: "?n + 32 < 256" by auto
    have "toLowerChar c = char_of (?n + 32)"
      using True unfolding toLowerChar_def Let_def by (rule if_P)
    then have "of_char (toLowerChar c) = ?n + 32"
      using of_char_char_of_small [OF lt] by simp
    then show ?thesis using True by (auto simp: isWhiteSpace_def)
  qed
qed

lemma dropWhile_toLowerCase:
  "dropWhile isWhiteSpace (toLowerCase s) = toLowerCase (dropWhile isWhiteSpace s)"
  by (induction s) (auto simp: toLowerCase_def)

lemma trim_toLowerCase: "trim (toLowerCase s) = toLowerCase (trim s)"
proof -
  have r: "\<And>x. rev (toLowerCase x) = toLowerCase (rev x)" by (simp add: toLowerCase_def rev_map)
  show ?thesis by (simp add: trim_def dropWhile_toLowerCase r)
qed

lemma map_of_assign: "map_of (assign k v kvs) k = Some v"
  by (induction kvs) auto

lemma handleSpeechResult_recorded:
  assumes ctx: "recognitionContext s = Some (HabitContext habitKey habitText)"
    and cls: "classifyResponse (toLowerCase (trim spoken)) = Some r"
  shows "map_of (responses (handleSpeechResult env spoken s)) habitKey = Some r"
proof -
  let ?s3 = "record_effect (HabitResponse habitKey habitText r)
               (updateStatus (''Recorded: '' @ r @ '' for '' @ habitText)
                  (s\<lparr>responses := assign habitKey r (responses s)\<rparr>))"
  have "handleSpeechResult env spoken s =
          processNextHabit env (?s3\<lparr>currentHabitIndex := currentHabitIndex ?s3 + 1\<rparr>)"
    using ctx cls by (simp add: handleSpeechResult_def Let_def)
  then show ?thesis
    using process_listen_frame(1) [of env "?s3\<lparr>currentHabitIndex := currentHabitIndex ?s3 + 1\<rparr>"]
    by (simp add: map_of_assign)
qed

lemma handleSpeechResult_ambiguous:
  assumes ctx: "recognitionContext s = Some (HabitContext habitKey habitText)"
    and cls: "classifyResponse (toLowerCase (trim spoken)) = None"
  shows "responses (handleSpeechResult env spoken s) = responses s"
    and "\<exists>rest. trace (handleSpeechResult env spoken s) = trace s @ SpeakText sorryPrompt # rest"
    and "speakOutcome env (speakCalls s) = None \<Longrightarrow> hasRecognition s \<Longrightarrow>
         startOutcome env (startCalls s) = None \<Longrightarrow>
         currentHabitIndex (handleSpeechResult env spoken s) = currentHabitIndex s \<and>
         recognitionContext (handleSpeechResult env spoken s) =
           Some (HabitContext habitKey habitText) \<and>
         trace (handleSpeechResult env spoken s) =
           trace s @ [SpeakText sorryPrompt, Status ''Listening for your response...'',
                      RecognitionStart]"
proof -
  let ?s1 = "record_effect (SpeakText sorryPrompt) (s\<lparr>speakCalls := speakCalls s + 1\<rparr>)"
  have unf: "handleSpeechResult env spoken s =
          (case speakText env sorryPrompt s of
             (None, s1) \<Rightarrow> listenForResponse env (habitKey, habitText) s1
           | (Some e, s1) \<Rightarrow> record_effect (Uncaught e) s1)"
    using ctx cls by (simp add: handleSpeechResult_def Let_def)
  have ne: "sorryPrompt \<noteq> []" by (simp add: sorryPrompt_def)
  show "responses (handleSpeechResult env spoken s) = responses s"
  proof (cases "speakOutcome env (speakCalls s)")
    case None
    then have "handleSpeechResult env spoken s = listenForResponse env (habitKey, habitText) ?s1"
      using unf ne by (simp add: speakText_def Let_def)
    then show ?thesis using process_listen_frame(2) [of env "(habitKey, habitText)" ?s1] by simp
  next
    case (Some e)
    then show ?thesis using unf ne by (simp add: speakText_def Let_def)
  qed
  show "\<exists>rest. trace (handleSpeechResult env spoken s) = trace s @ SpeakText sorryPrompt # rest"
  proof (cases "speakOutcome env (speakCalls s)")
    case None
    then have "handleSpeechResult env spoken s = listenForResponse env (habitKey, habitText) ?s1"
      using unf ne by (simp add: speakText_def Let_def)
    then show ?thesis using process_listen_frame(2) [of env "(habitKey, habitText)" ?s1] by auto
  next
    case (Some e)
    then show ?thesis using unf ne by (simp add: speakText_def Let_def)
  qed
  assume ok: "speakOutcome env (speakCalls s) = None" "hasRecognition s"
    "startOutcome env (startCalls s) = None"
  then have "handleSpeechResult env spoken s = listenForResponse env (habitKey, habitText) ?s1"
    using unf ne by (simp add: speakText_def Let_def)
  moreover have "listenForResponse env (habitKey, habitText) ?s1 =
      record_effect RecognitionStart
        ((updateStatus ''Listening for your response...'' ?s1)
           \<lparr>recognitionContext := Some (HabitContext habitKey habitText),
            startCalls := startCalls s + 1\<rparr>)"
    using ok by (subst listenForResponse.simps) (simp add: Let_def)
  ultimately show "currentHabitIndex (handleSpeechResult env spoken s) = currentHabitIndex s \<and>
         recognitionContext (handleSpeechResult env spoken s) =
           Some (HabitContext habitKey habitText) \<and>
         trace (handleSpeechResult env spoken s) =
           trace s @ [SpeakText sorryPrompt, Status ''Listening for your response...'',
                      RecognitionStart]"
    by simp
qed

lemma handleSpeechResult_case_insensitive:
  assumes "toLowerCase a = toLowerCase b"
  shows "handleSpeechResult env a s = handleSpeechResult env b s"
proof -
  have "toLowerCase (trim a) = toLowerCase (trim b)"
    using assms by (simp add: trim_toLowerCase [symmetric])
  then show ?thesis by (simp add: handleSpeechResult_def)
qed

lemma classify_examples:
  "classifyResponse (toLowerCase (trim ''yeah I did it'')) = Some ''yes''"
  "classifyResponse (toLowerCase (trim ''nah not today'')) = Some ''no''"
  "classifyResponse (toLowerCase (trim ''let's skip that one'')) = Some ''skip''"
  "classifyResponse (toLowerCase (trim ''maybe kind of'')) = None"
  by code_simp+

text \<open>
  Claim C3. While the session listens for a habit, the transcript, trimmed and lower-cased,
  is classified by substring matching: \<open>yes\<close> when it contains "yes", "yeah" or
  "yep"; otherwise \<open>no\<close> when it contains "no", "nope" or "nah"; otherwise
  \<open>skip\<close> when it contains "skip"; otherwise it is ambiguous. A classified answer is one
  of the three and is recorded under the habit's key. An ambiguous transcript records
  nothing, the clarifying prompt is spoken, and once that speech has finished and
  recognition starts, the session listens again for the same habit, at the same index.
  Transcripts that differ only in letter case are handled alike. "yeah I did it" is yes,
  "nah not today" is no, "let's skip that one" is skip and "maybe kind of" is ambiguous.
\<close>

theorem spoken_response_classified:
  assumes "recognitionContext s = Some (HabitContext habitKey habitText)"
  shows "classifyResponse (toLowerCase (trim spoken)) = classifyBySpec (toLowerCase (trim spoken)) \<and>
    (\<forall>r. classifyBySpec (toLowerCase (trim spoken)) = Some r \<longrightarrow>
        (r = ''yes'' \<or> r = ''no'' \<or> r = ''skip'') \<and>
        map_of (responses (handleSpeechResult env spoken s)) habitKey = Some r) \<and>
    (classifyBySpec (toLowerCase (trim spoken)) = None \<longrightarrow>
        responses (handleSpeechResult env spoken s) = responses s \<and>
        (\<exists>rest. trace (handleSpeechResult env spoken s) = trace s @ SpeakText sorryPrompt # rest) \<and>
        (speakOutcome env (speakCalls s) = None \<and> hasRecognition s \<and>
         startOutcome env (startCalls s) = None \<longrightarrow>
           currentHabitIndex (handleSpeechResult env spoken s) = currentHabitIndex s \<and>
           recognitionContext (handleSpeechResult env spoken s) =
             Some (HabitContext habitKey habitText) \<and>
           trace (handleSpeechResult env spoken s) =
             trace s @ [SpeakText sorryPrompt, Status ''Listening for your response...'',
                        RecognitionStart])) \<and>
    (\<forall>other. toLowerCase other = toLowerCase spoken \<longrightarrow>
        handleSpeechResult env other s = handleSpeechResult env spoken s) \<and>
    classifyBySpec (toLowerCase (trim ''yeah I did it'')) = Some ''yes'' \<and>
    classifyBySpec (toLowerCase (trim ''nah not today'')) = Some ''no'' \<and>
    classifyBySpec (toLowerCase (trim ''let's skip that one'')) = Some ''skip'' \<and>
    classifyBySpec (toLowerCase (trim ''maybe kind of'')) = None"
proof -
  let ?t = "toLowerCase (trim spoken)"
  have a: "classifyResponse ?t = classifyBySpec ?t" by (rule classifyResponse_spec)
  have b: "\<forall>r. classifyBySpec ?t = Some r \<longrightarrow>
        (r = ''yes'' \<or> r = ''no'' \<or> r = ''skip'') \<and>
        map_of (responses (handleSpeechResult env spoken s)) habitKey = Some r"
  proof (intro allI impI)
    fix r assume "classifyBySpec ?t = Some r"
    then have c: "classifyResponse ?t = Some r" by (simp only: classifyResponse_spec)
    from classifyResponse_range [OF c] handleSpeechResult_recorded [OF assms c]
    show "(r = ''yes'' \<or> r = ''no'' \<or> r = ''skip'') \<and>
          map_of (responses (handleSpeechResult env spoken s)) habitKey = Some r"
      by (intro conjI)
  qed
  have c: "classifyBySpec ?t = None \<longrightarrow>
        responses (handleSpeechResult env spoken s) = responses s \<and>
        (\<exists>rest. trace (handleSpeechResult env spoken s) = trace s @ SpeakText sorryPrompt # rest) \<and>
        (speakOutcome env (speakCalls s) = None \<and> hasRecognition s \<and>
         startOutcome env (startCalls s) = None \<longrightarrow>
           currentHabitIndex (handleSpeechResult env spoken s) = currentHabitIndex s \<and>
           recognitionContext (handleSpeechResult env spoken s) =
             Some (HabitContext habitKey habitText) \<and>
           trace (handleSpeechResult env spoken s) =
             trace s @ [SpeakText sorryPrompt, Status ''Listening for your response...'',
                        RecognitionStart])"
  proof (intro impI conjI; (elim conjE)?)
    assume "classifyBySpec ?t = None"
    then have n: "classifyResponse ?t = None" by (simp only: classifyResponse_spec)
    note amb = handleSpeechResult_ambiguous [OF assms n, of env]
    show "responses (handleSpeechResult env spoken s) = responses s" by (rule amb(1))
    show "\<exists>rest. trace (handleSpeechResult env spoken s) = trace s @ SpeakText sorryPrompt # rest"
      by (rule amb(2))
    assume ok: "speakOutcome env (speakCalls s) = None" "hasRecognition s"
         "startOutcome env (startCalls s) = None"
    from amb(3) [OF ok]
    show "currentHabitIndex (handleSpeechResult env spoken s) = currentHabitIndex s"
      and "recognitionContext (handleSpeechResult env spoken s) =
             Some (HabitContext habitKey habitText)"
      and "trace (handleSpeechResult env spoken s) =
             trace s @ [SpeakText sorryPrompt, Status ''Listening for your response...'',
                        RecognitionStart]"
      by blast+
  qed
  have d: "\<forall>other. toLowerCase other = toLowerCase spoken \<longrightarrow>
        handleSpeechResult env other s = handleSpeechResult env spoken s"
    using handleSpeechResult_case_insensitive by blast
  note ex = classify_examples [unfolded classifyResponse_spec]
  show ?thesis by (intro conjI a b c d ex)
qed

lemma listeningFirst_facts:
  "recognitionContext listeningFirst = Some (HabitContext ''habit_1'' ''Drink water'')"
  "hasRecognition listeningFirst"
  "speakCalls listeningFirst = 1" "startCalls listeningFirst = 1"
  "responses listeningFirst = []" "currentHabitIndex listeningFirst = 0"
  by code_simp+

text \<open>The two-habit session listening for its first habit hears "Maybe kind of", or "Yeah I did it".\<close>

theorem spoken_response_classified_witness:
  "recognitionContext listeningFirst = Some (HabitContext ''habit_1'' ''Drink water'') \<and>
   classifyBySpec (toLowerCase (trim ''Maybe kind of'')) = None \<and>
   responses (handleSpeechResult scenarioEnv ''Maybe kind of'' listeningFirst) = [] \<and>
   currentHabitIndex (handleSpeechResult scenarioEnv ''Maybe kind of'' listeningFirst) = 0 \<and>
   recognitionContext (handleSpeechResult scenarioEnv ''Maybe kind of'' listeningFirst) =
     Some (HabitContext ''habit_1'' ''Drink water'') \<and>
   classifyBySpec (toLowerCase (trim ''Yeah I did it'')) = Some ''yes'' \<and>
   map_of (responses (handleSpeechResult scenarioEnv ''Yeah I did it'' listeningFirst)) ''habit_1'' =
     Some ''yes''"
proof -
  note ctx = listeningFirst_facts(1)
  note amb = spoken_response_classified [OF ctx, of "''Maybe kind of''" scenarioEnv]
  note yes = spoken_response_classified [OF ctx, of "''Yeah I did it''" scenarioEnv]
  have n: "classifyResponse (toLowerCase (trim ''Maybe kind of'')) = None" by code_simp
  have y: "classifyResponse (toLowerCase (trim ''Yeah I did it'')) = Some ''yes''" by code_simp
  have n': "classifyBySpec (toLowerCase (trim ''Maybe kind of'')) = None"
    using amb n by (simp only:)
  have y': "classifyBySpec (toLowerCase (trim ''Yeah I did it'')) = Some ''yes''"
    using yes y by (simp only:)
  have ok: "speakOutcome scenarioEnv (speakCalls listeningFirst) = None \<and>
            hasRecognition listeningFirst \<and>
            startOutcome scenarioEnv (startCalls listeningFirst) = None"
    by (simp add: listeningFirst_facts scenarioEnv_def alwaysOk_def)
  from amb n' ok have
    r1: "responses (handleSpeechResult scenarioEnv ''Maybe kind of'' listeningFirst) =
           responses listeningFirst"
    and r2: "currentHabitIndex (handleSpeechResult scenarioEnv ''Maybe kind of'' listeningFirst) =
           currentHabitIndex listeningFirst"
    and r3: "recognitionContext (handleSpeechResult scenarioEnv ''Maybe kind of'' listeningFirst) =
     Some (HabitContext ''habit_1'' ''Drink water'')"
    by blast+
  from yes y' have r4:
    "map_of (responses (handleSpeechResult scenarioEnv ''Yeah I did it'' listeningFirst)) ''habit_1'' =
     Some ''yes''" by blast
  show ?thesis using ctx n' r1 r2 r3 y' r4 by (simp only: listeningFirst_facts simp_thms)
qed

lemma errorsReported_append: "errorsReported (xs @ ys) = errorsReported xs @ errorsReported ys"
  by (induction xs rule: errorsReported.induct) auto

lemma spokenTexts_append: "spokenTexts (xs @ ys) = spokenTexts xs @ spokenTexts ys"
  by (induction xs rule: spokenTexts.induct) auto

lemma listeningSecond_facts:
  "recognitionContext listeningSecond = Some (HabitContext ''habit_2'' ''Stretch'')"
  "habitStack listeningSecond = Some threeHabitStack"
  "currentHabitIndex listeningSecond = 1"
  "responses listeningSecond = [(''habit_1'', ''yes'')]"
  "length (availableHabits threeHabitStack) = 3"
  "availableHabits threeHabitStack ! 2 = (''habit_3'', ''Read'')"
  by code_simp+

lemma errorEvents_posted:
  "posted (trace (runSession threeHabitEnv errorEvents scenarioStart)) =
     [\<lparr>user_id = ''user-1'', date = ''2024-01-10'',
       log_responses = [(''habit_1'', ''yes''), (''habit_3'', ''no'')],
       log_reflection = ''skip''\<rparr>]"
  by code_simp


lemma processNextHabit_advance:
  assumes "habitStack x = Some stack"
  shows "responses (processNextHabit env (advance x)) = responses x \<and>
     currentHabitIndex x + 1 \<le> currentHabitIndex (processNextHabit env (advance x)) \<and>
     (currentHabitIndex x + 1 < length (availableHabits stack) \<longrightarrow>
        (\<exists>rest. trace (processNextHabit env (advance x)) =
           trace x @
           [Status (''Habit '' @ digits (currentHabitIndex x + 2) @ '': '' @
                    snd (availableHabits stack ! (currentHabitIndex x + 1))),
            HabitRead (fst (availableHabits stack ! (currentHabitIndex x + 1)))
                      (snd (availableHabits stack ! (currentHabitIndex x + 1)))] @ rest)) \<and>
     (length (availableHabits stack) \<le> currentHabitIndex x + 1 \<longrightarrow>
        (\<exists>rest. trace (processNextHabit env (advance x)) =
           trace x @ Status reflectionStatus # rest))"
proof -
  let ?y = "advance x"
  note fr = process_listen_frame(1) [of env ?y]
  have hs: "habitStack ?y = Some stack" using assms by (simp add: advance_def)
  have f: "responses ?y = responses x" "currentHabitIndex ?y = currentHabitIndex x + 1"
    "trace ?y = trace x" by (simp_all add: advance_def)
  have p1: "responses (processNextHabit env ?y) = responses x" using fr f by simp
  have p2: "currentHabitIndex x + 1 \<le> currentHabitIndex (processNextHabit env ?y)"
    using fr f by simp
  have p3: "currentHabitIndex x + 1 < length (availableHabits stack) \<longrightarrow>
        (\<exists>rest. trace (processNextHabit env ?y) =
           trace x @
           [Status (''Habit '' @ digits (currentHabitIndex x + 2) @ '': '' @
                    snd (availableHabits stack ! (currentHabitIndex x + 1))),
            HabitRead (fst (availableHabits stack ! (currentHabitIndex x + 1)))
                      (snd (availableHabits stack ! (currentHabitIndex x + 1)))] @ rest)"
  proof
    assume lt: "currentHabitIndex x + 1 < length (availableHabits stack)"
    then have lt2: "currentHabitIndex ?y < length (availableHabits stack)" using f by simp
    have two: "currentHabitIndex x + 1 + 1 = currentHabitIndex x + 2" by simp
    from processNextHabit_reads_next [OF hs lt2, of env]
    show "\<exists>rest. trace (processNextHabit env ?y) =
           trace x @
           [Status (''Habit '' @ digits (currentHabitIndex x + 2) @ '': '' @
                    snd (availableHabits stack ! (currentHabitIndex x + 1))),
            HabitRead (fst (availableHabits stack ! (currentHabitIndex x + 1)))
                      (snd (availableHabits stack ! (currentHabitIndex x + 1)))] @ rest"
      unfolding f by (simp add: two)
  qed
  have p4: "length (availableHabits stack) \<le> currentHabitIndex x + 1 \<longrightarrow>
        (\<exists>rest. trace (processNextHabit env ?y) = trace x @ Status reflectionStatus # rest)"
  proof
    assume ge: "length (availableHabits stack) \<le> currentHabitIndex x + 1"
    then have ge2: "length (availableHabits stack) \<le> currentHabitIndex ?y" using f by simp
    from processNextHabit_after_last [OF hs ge2, of env] askForReflection_trace [of env ?y]
    show "\<exists>rest. trace (processNextHabit env ?y) = trace x @ Status reflectionStatus # rest"
      unfolding reflectionStatus_def f by simp
  qed
  show ?thesis by (intro conjI p1 p2 p3 p4)
qed

lemma handleSpeechError_advance:
  assumes "recognitionContext s = Some (HabitContext habitKey habitText)"
  shows "handleSpeechError env err s =
           processNextHabit env (advance (handleError (''Speech recognition error: '' @ err) s))"
  using assms by (simp add: handleSpeechError_def Let_def advance_def)

lemma prompt_failure_advance:
  assumes "habitStack s = Some stack"
    and "currentHabitIndex s < length (availableHabits stack)"
    and "speakOutcome env (speakCalls s) = Some e"
  shows "\<exists>x. processNextHabit env s = processNextHabit env (advance x) \<and>
             habitStack x = habitStack s \<and> responses x = responses s \<and>
             currentHabitIndex x = currentHabitIndex s \<and>
             errorsReported (trace x) =
               errorsReported (trace s) @
               [''Failed to speak text: '' @ e, ''Error processing habit: '' @ e]"
proof -
  let ?cur = "availableHabits stack ! currentHabitIndex s"
  let ?s2 = "record_effect (HabitRead (fst ?cur) (snd ?cur))
                (updateStatus (''Habit '' @ digits (currentHabitIndex s + 1) @ '': '' @ snd ?cur) s)"
  let ?prompt = "''Did you complete this habit today: '' @ snd ?cur @
              ''? Please respond with yes, no, or skip.''"
  let ?s3 = "handleError (''Failed to speak text: '' @ e)
               (record_effect (SpeakText ?prompt) (?s2\<lparr>speakCalls := speakCalls ?s2 + 1\<rparr>))"
  let ?x = "handleError (''Error processing habit: '' @ e) ?s3"
  have sp: "speakText env ?prompt ?s2 = (Some e, ?s3)"
    using assms(3) by (simp add: speakText_def Let_def)
  have "processNextHabit env s = processNextHabit env (advance ?x)"
    using processNextHabit_unfold [OF assms(1,2), of env] sp by (simp add: advance_def)
  moreover have "habitStack ?x = habitStack s" "responses ?x = responses s"
    "currentHabitIndex ?x = currentHabitIndex s" by simp_all
  moreover have "errorsReported (trace ?x) =
               errorsReported (trace s) @
               [''Failed to speak text: '' @ e, ''Error processing habit: '' @ e]"
    by (simp add: errorsReported_append)
  ultimately show ?thesis by blast
qed

lemma start_failure_advance:
  assumes "hasRecognition s" and "startOutcome env (startCalls s) = Some e"
  shows "\<exists>x. listenForResponse env h s = processNextHabit env (advance x) \<and>
             habitStack x = habitStack s \<and> responses x = responses s \<and>
             currentHabitIndex x = currentHabitIndex s \<and>
             errorsReported (trace x) =
               errorsReported (trace s) @ [''Error starting speech recognition: '' @ e]"
proof -
  let ?s2 = "(updateStatus ''Listening for your response...'' s)
                \<lparr>recognitionContext := Some (HabitContext (fst h) (snd h)),
                 startCalls := startCalls s + 1\<rparr>"
  let ?x = "handleError (''Error starting speech recognition: '' @ e) ?s2"
  have "listenForResponse env h s = processNextHabit env (advance ?x)"
    using assms by (subst listenForResponse.simps) (simp add: Let_def advance_def)
  moreover have "habitStack ?x = habitStack s" "responses ?x = responses s"
    "currentHabitIndex ?x = currentHabitIndex s" by simp_all
  moreover have "errorsReported (trace ?x) =
               errorsReported (trace s) @ [''Error starting speech recognition: '' @ e]"
    by (simp add: errorsReported_append)
  ultimately show ?thesis by blast
qed

text \<open>
  Claim C4. An error raised while habit \<open>i\<close> is processed does not abort the session.
  Whether speech recognition reports an error while the session listens for the habit, the
  spoken prompt for the habit fails, or recognition cannot be started, the error reaches
  the error callback, nothing is recorded for the habit, and \<open>processNextHabit\<close> runs
  with the habit index incremented. From there the session keeps the recorded responses,
  never returns to an earlier habit, reads out habit \<open>i + 1\<close> when there is one, and asks
  for the reflection after the last habit.
\<close>

theorem habit_error_advances:
  assumes "habitStack s = Some stack"
  shows
    "(\<forall>habitKey habitText.
        recognitionContext s = Some (HabitContext habitKey habitText) \<longrightarrow>
        handleSpeechError env err s =
          processNextHabit env (advance (handleError (''Speech recognition error: '' @ err) s)) \<and>
        errorsReported (trace (handleError (''Speech recognition error: '' @ err) s)) =
          errorsReported (trace s) @ [''Speech recognition error: '' @ err] \<and>
        responses (handleSpeechError env err s) = responses s \<and>
        currentHabitIndex s + 1 \<le> currentHabitIndex (handleSpeechError env err s)) \<and>
     (currentHabitIndex s < length (availableHabits stack) \<and>
      speakOutcome env (speakCalls s) = Some e \<longrightarrow>
        (\<exists>x. processNextHabit env s = processNextHabit env (advance x) \<and>
             habitStack x = habitStack s \<and> responses x = responses s \<and>
             currentHabitIndex x = currentHabitIndex s \<and>
             errorsReported (trace x) =
               errorsReported (trace s) @
               [''Failed to speak text: '' @ e, ''Error processing habit: '' @ e])) \<and>
     (hasRecognition s \<and> startOutcome env (startCalls s) = Some e \<longrightarrow>
        (\<exists>x. listenForResponse env h s = processNextHabit env (advance x) \<and>
             habitStack x = habitStack s \<and> responses x = responses s \<and>
             currentHabitIndex x = currentHabitIndex s \<and>
             errorsReported (trace x) =
               errorsReported (trace s) @ [''Error starting speech recognition: '' @ e])) \<and>
     (\<forall>x. habitStack x = Some stack \<longrightarrow>
        responses (processNextHabit env (advance x)) = responses x \<and>
        currentHabitIndex x + 1 \<le> currentHabitIndex (processNextHabit env (advance x)) \<and>
        (currentHabitIndex x + 1 < length (availableHabits stack) \<longrightarrow>
           (\<exists>rest. trace (processNextHabit env (advance x)) =
              trace x @
              [Status (''Habit '' @ digits (currentHabitIndex x + 2) @ '': '' @
                       snd (availableHabits stack ! (currentHabitIndex x + 1))),
               HabitRead (fst (availableHabits stack ! (currentHabitIndex x + 1)))
                         (snd (availableHabits stack ! (currentHabitIndex x + 1)))] @ rest)) \<and>
        (length (availableHabits stack) \<le> currentHabitIndex x + 1 \<longrightarrow>
           (\<exists>rest. trace (processNextHabit env (advance x)) =
              trace x @ Status reflectionStatus # rest)))"
proof (intro conjI allI impI)
  fix habitKey habitText
  assume ctx: "recognitionContext s = Some (HabitContext habitKey habitText)"
  let ?x = "handleError (''Speech recognition error: '' @ err) s"
  show eq: "handleSpeechError env err s = processNextHabit env (advance ?x)"
    using ctx by (rule handleSpeechError_advance)
  show "errorsReported (trace ?x) = errorsReported (trace s) @ [''Speech recognition error: '' @ err]"
    by (simp add: errorsReported_append)
  have hx: "habitStack ?x = Some stack" using assms by simp
  from processNextHabit_advance [OF hx, of env]
  show "responses (handleSpeechError env err s) = responses s"
    and "currentHabitIndex s + 1 \<le> currentHabitIndex (handleSpeechError env err s)"
    unfolding eq by simp_all
next
  assume "currentHabitIndex s < length (availableHabits stack) \<and>
      speakOutcome env (speakCalls s) = Some e"
  then show "\<exists>x. processNextHabit env s = processNextHabit env (advance x) \<and>
             habitStack x = habitStack s \<and> responses x = responses s \<and>
             currentHabitIndex x = currentHabitIndex s \<and>
             errorsReported (trace x) =
               errorsReported (trace s) @
               [''Failed to speak text: '' @ e, ''Error processing habit: '' @ e]"
    using prompt_failure_advance [OF assms, of env e] by blast
next
  assume "hasRecognition s \<and> startOutcome env (startCalls s) = Some e"
  then show "\<exists>x. listenForResponse env h s = processNextHabit env (advance x) \<and>
             habitStack x = habitStack s \<and> responses x = responses s \<and>
             currentHabitIndex x = currentHabitIndex s \<and>
             errorsReported (trace x) =
               errorsReported (trace s) @ [''Error starting speech recognition: '' @ e]"
    using start_failure_advance [of s env e h] by blast
next
  fix x :: tracker assume hx: "habitStack x = Some stack"
  note adv = processNextHabit_advance [OF hx, of env]
  show "responses (processNextHabit env (advance x)) = responses x" using adv by blast
  show "currentHabitIndex x + 1 \<le> currentHabitIndex (processNextHabit env (advance x))"
    using adv by blast
  show "\<exists>rest. trace (processNextHabit env (advance x)) =
              trace x @
              [Status (''Habit '' @ digits (currentHabitIndex x + 2) @ '': '' @
                       snd (availableHabits stack ! (currentHabitIndex x + 1))),
               HabitRead (fst (availableHabits stack ! (currentHabitIndex x + 1)))
                         (snd (availableHabits stack ! (currentHabitIndex x + 1)))] @ rest"
    if "currentHabitIndex x + 1 < length (availableHabits stack)"
    using adv that by blast
  show "\<exists>rest. trace (processNextHabit env (advance x)) =
              trace x @ Status reflectionStatus # rest"
    if "length (availableHabits stack) \<le> currentHabitIndex x + 1"
    using adv that by blast
qed

lemma fetchedThree_facts:
  "habitStack fetchedThree = Some threeHabitStack"
  "currentHabitIndex fetchedThree = 0"
  "speakCalls fetchedThree = 0" "startCalls fetchedThree = 0"
  "hasRecognition fetchedThree"
  "errorsReported (trace fetchedThree) = []"
  by code_simp+

text \<open>
  Three habits. A transport error while listening for the second: the third habit is read
  out next, and the whole session ends by posting the answers to the first and third
  habits. A prompt that cannot be spoken, and a recognition that cannot be started, for
  the first habit.
\<close>

theorem habit_error_advances_witness:
  "habitStack listeningSecond = Some threeHabitStack \<and>
   recognitionContext listeningSecond = Some (HabitContext ''habit_2'' ''Stretch'') \<and>
   currentHabitIndex listeningSecond = 1 \<and>
   responses (handleSpeechError threeHabitEnv ''network'' listeningSecond) = [(''habit_1'', ''yes'')] \<and>
   2 \<le> currentHabitIndex (handleSpeechError threeHabitEnv ''network'' listeningSecond) \<and>
   (\<exists>rest. trace (handleSpeechError threeHabitEnv ''network'' listeningSecond) =
      trace (handleError ''Speech recognition error: network'' listeningSecond) @
      [Status (''Habit '' @ digits 3 @ '': Read''), HabitRead ''habit_3'' ''Read''] @ rest) \<and>
   posted (trace (runSession threeHabitEnv errorEvents scenarioStart)) =
     [\<lparr>user_id = ''user-1'', date = ''2024-01-10'',
       log_responses = [(''habit_1'', ''yes''), (''habit_3'', ''no'')],
       log_reflection = ''skip''\<rparr>] \<and>
   habitStack fetchedThree = Some threeHabitStack \<and>
   currentHabitIndex fetchedThree < length (availableHabits threeHabitStack) \<and>
   speakOutcome speechFailsEnv (speakCalls fetchedThree) = Some ''unavailable'' \<and>
   (\<exists>x. processNextHabit speechFailsEnv fetchedThree =
          processNextHabit speechFailsEnv (advance x) \<and>
        currentHabitIndex x = 0 \<and>
        errorsReported (trace x) =
          [''Failed to speak text: unavailable'', ''Error processing habit: unavailable'']) \<and>
   habitsRead (trace (processNextHabit speechFailsEnv fetchedThree)) = [''habit_1'', ''habit_2''] \<and>
   hasRecognition fetchedThree \<and>
   startOutcome startFailsEnv (startCalls fetchedThree) = Some ''unavailable'' \<and>
   (\<exists>x. listenForResponse startFailsEnv (''habit_1'', ''Drink water'') fetchedThree =
          processNextHabit startFailsEnv (advance x) \<and>
        currentHabitIndex x = 0 \<and>
        errorsReported (trace x) = [''Error starting speech recognition: unavailable''])"
proof -
  note th = habit_error_advances [OF listeningSecond_facts(2), of threeHabitEnv "''network''"]
  let ?x = "handleError (''Speech recognition error: '' @ ''network'') listeningSecond"
  from th listeningSecond_facts(1)
  have eq: "handleSpeechError threeHabitEnv ''network'' listeningSecond =
          processNextHabit threeHabitEnv (advance ?x)"
    and r: "responses (handleSpeechError threeHabitEnv ''network'' listeningSecond) =
      responses listeningSecond"
    and i: "currentHabitIndex listeningSecond + 1 \<le>
      currentHabitIndex (handleSpeechError threeHabitEnv ''network'' listeningSecond)"
    by blast+
  have hx: "habitStack ?x = Some threeHabitStack" by (simp add: listeningSecond_facts)
  have lt: "currentHabitIndex ?x + 1 < length (availableHabits threeHabitStack)"
    by (simp add: listeningSecond_facts)
  from th hx lt have "\<exists>rest. trace (processNextHabit threeHabitEnv (advance ?x)) =
              trace ?x @
              [Status (''Habit '' @ digits (currentHabitIndex ?x + 2) @ '': '' @
                       snd (availableHabits threeHabitStack ! (currentHabitIndex ?x + 1))),
               HabitRead (fst (availableHabits threeHabitStack ! (currentHabitIndex ?x + 1)))
                         (snd (availableHabits threeHabitStack ! (currentHabitIndex ?x + 1)))] @ rest"
    by blast
  moreover have "currentHabitIndex ?x + 2 = 3" "currentHabitIndex ?x + 1 = 2"
    "''Speech recognition error: '' @ ''network'' = ''Speech recognition error: network''"
    by (simp_all add: listeningSecond_facts)
  ultimately have t: "\<exists>rest. trace (handleSpeechError threeHabitEnv ''network'' listeningSecond) =
      trace (handleError ''Speech recognition error: network'' listeningSecond) @
      [Status (''Habit '' @ digits 3 @ '': Read''), HabitRead ''habit_3'' ''Read''] @ rest"
    unfolding eq by (simp only: listeningSecond_facts fst_conv snd_conv append_Cons append_Nil)
  have a1: "currentHabitIndex fetchedThree < length (availableHabits threeHabitStack)"
    by (simp add: fetchedThree_facts listeningSecond_facts)
  have a2: "speakOutcome speechFailsEnv (speakCalls fetchedThree) = Some ''unavailable''"
    by (simp add: fetchedThree_facts speechFailsEnv_def failsFirst_def)
  have a3: "startOutcome startFailsEnv (startCalls fetchedThree) = Some ''unavailable''"
    by (simp add: fetchedThree_facts startFailsEnv_def failsFirst_def)
  from habit_error_advances [OF fetchedThree_facts(1), of speechFailsEnv _ "''unavailable''"] a1 a2
  have p: "\<exists>x. processNextHabit speechFailsEnv fetchedThree =
          processNextHabit speechFailsEnv (advance x) \<and>
        currentHabitIndex x = 0 \<and>
        errorsReported (trace x) =
          [''Failed to speak text: unavailable'', ''Error processing habit: unavailable'']"
    by (simp only: fetchedThree_facts append_Nil append_Cons) blast
  from habit_error_advances [OF fetchedThree_facts(1), of startFailsEnv _ "''unavailable''"
          "(''habit_1'', ''Drink water'')"] fetchedThree_facts(5) a3
  have q: "\<exists>x. listenForResponse startFailsEnv (''habit_1'', ''Drink water'') fetchedThree =
          processNextHabit startFailsEnv (advance x) \<and>
        currentHabitIndex x = 0 \<and>
        errorsReported (trace x) = [''Error starting speech recognition: unavailable'']"
    by (simp only: fetchedThree_facts append_Nil append_Cons) blast
  have hr: "habitsRead (trace (processNextHabit speechFailsEnv fetchedThree)) =
      [''habit_1'', ''habit_2'']" by code_simp
  show ?thesis
    using r i t errorEvents_posted a1 a2 a3 p q hr
    by (simp add: listeningSecond_facts fetchedThree_facts)
qed

text \<open>
  Claim C8. The stack \<open>{habit_1: "Drink water", habit_2: "Stretch"}\<close>, the answers "yes"
  and "no", then "skip" to the reflection prompt: the one payload posted has the responses
  \<open>{habit_1: "yes", habit_2: "no"}\<close>, and its reflection is the transcript "skip", not
  the empty string.
\<close>

theorem two_habit_scenario_payload:
  "posted (trace (runSession scenarioEnv scenarioEvents scenarioStart)) =
     [\<lparr>user_id = ''user-1'', date = ''2024-01-10'',
       log_responses = [(''habit_1'', ''yes''), (''habit_2'', ''no'')],
       log_reflection = ''skip''\<rparr>]"
  by code_simp

text \<open>The responses and the reflection of that payload.\<close>

theorem two_habit_scenario_payload_witness:
  "map log_responses (posted (trace (runSession scenarioEnv scenarioEvents scenarioStart))) =
     [[(''habit_1'', ''yes''), (''habit_2'', ''no'')]] \<and>
   map log_reflection (posted (trace (runSession scenarioEnv scenarioEvents scenarioStart))) =
     [''skip''] \<and>
   map log_reflection (posted (trace (runSession scenarioEnv scenarioEvents scenarioStart))) \<noteq>
     [[]]"
  using two_habit_scenario_payload by simp

text \<open>
  Claim C9, as stated, fails: a fetched stack whose only slot is empty does not abort the
  session. No error is reported, the session stays active, speaks the reflection prompt
  and listens for the reflection.
\<close>

theorem empty_stack_counterexample:
  "availableHabits [(''habit_1'', [])] = [] \<and>
   stackFetch emptyStackEnv = HttpOk (Some True) None (Some [(''habit_1'', [])]) \<and>
   isProcessing (startDailyCheck emptyStackEnv scenarioStart) \<and>
   errorsReported (trace (startDailyCheck emptyStackEnv scenarioStart)) = [] \<and>
   spokenTexts (trace (startDailyCheck emptyStackEnv scenarioStart)) = [reflectionPrompt] \<and>
   recognitionContext (startDailyCheck emptyStackEnv scenarioStart) = Some ReflectionContext"
  by code_simp

lemma noStackMessage_kept: "networkErrorMessage ''Error'' noStackMessage = noStackMessage"
  by code_simp

lemma startDailyCheck_no_stack_object:
  assumes idle: "\<not> isProcessing s" and auth: "getUserId s = Some userId"
    and got: "stackFetch env = HttpOk success err None" and ok: "success \<noteq> Some False"
  shows "\<not> isProcessing (startDailyCheck env s)"
    and "habitStack (startDailyCheck env s) = habitStack s"
    and "errorsReported (trace (startDailyCheck env s)) =
           errorsReported (trace s) @
           [''Error fetching habit stack: '' @ noStackMessage,
            ''Failed to start daily check: '' @ noStackMessage]"
    and "spokenTexts (trace (startDailyCheck env s)) = spokenTexts (trace s)"
proof -
  let ?s2 = "updateStatus ''Starting daily habit check...''
               (record_effect StartCallback (s\<lparr>isProcessing := True\<rparr>))"
  have auth2: "getUserId (updateStatus ''Fetching your habits for today...'' ?s2) = Some userId"
    using auth by (simp add: getUserId_def)
  have f: "fetchHabitStack env ?s2 =
      fetchFailed noStackMessage
        (record_effect (HttpGet userId (formattedDate s))
           (updateStatus ''Fetching your habits for today...'' ?s2))"
    using got ok auth2 noStackMessage_kept
    by (simp add: fetchHabitStack_def Let_def noStackMessage_def)
  have st: "startDailyCheck env s =
      (handleError (''Failed to start daily check: '' @ noStackMessage)
         (snd (fetchFailed noStackMessage
            (record_effect (HttpGet userId (formattedDate s))
               (updateStatus ''Fetching your habits for today...'' ?s2)))))
        \<lparr>isProcessing := False\<rparr>"
    using idle auth f by (simp add: startDailyCheck_def checkAuthentication_def Let_def fetchFailed_def)
  show "\<not> isProcessing (startDailyCheck env s)" by (simp add: st)
  show "habitStack (startDailyCheck env s) = habitStack s" by (simp add: st fetchFailed_def)
  show "errorsReported (trace (startDailyCheck env s)) =
           errorsReported (trace s) @
           [''Error fetching habit stack: '' @ noStackMessage,
            ''Failed to start daily check: '' @ noStackMessage]"
    by (simp add: st fetchFailed_def errorsReported_append)
  show "spokenTexts (trace (startDailyCheck env s)) = spokenTexts (trace s)"
    by (simp add: st fetchFailed_def spokenTexts_append)
qed

lemma startDailyCheck_empty_stack:
  assumes idle: "\<not> isProcessing s" and auth: "getUserId s = Some userId"
    and got: "stackFetch env = HttpOk success err (Some stack)" and ok: "success \<noteq> Some False"
    and empty: "availableHabits stack = []"
  shows "startDailyCheck env s = askForReflection env (afterFetch userId stack s)"
proof -
  let ?s2 = "updateStatus ''Starting daily habit check...''
               (record_effect StartCallback (s\<lparr>isProcessing := True\<rparr>))"
  have auth2: "getUserId (updateStatus ''Fetching your habits for today...'' ?s2) = Some userId"
    using auth by (simp add: getUserId_def)
  have f: "fetchHabitStack env ?s2 =
      (None, updateStatus ''Habits loaded for today.''
        ((record_effect (HttpGet userId (formattedDate s))
            (updateStatus ''Fetching your habits for today...'' ?s2))\<lparr>habitStack := Some stack\<rparr>))"
    using got ok auth2 by (simp add: fetchHabitStack_def Let_def)
  have st: "startDailyCheck env s = processNextHabit env (afterFetch userId stack s)"
    using idle auth f by (simp add: startDailyCheck_def checkAuthentication_def Let_def afterFetch_def)
  have "habitStack (afterFetch userId stack s) = Some stack" by (simp add: afterFetch_def)
  from processNextHabit_after_last [OF this, of env] empty st show ?thesis by simp
qed

lemma submitDailyLog_no_responses:
  assumes "responses x = []" and "getUserId x = Some userId"
  shows "submitDailyLog env x =
           submitFailed ''No habit responses to submit'' (updateStatus ''Submitting your daily log...'' x)"
proof -
  have "getUserId (updateStatus ''Submitting your daily log...'' x) = Some userId"
    using assms(2) by (simp add: getUserId_def)
  then show ?thesis using assms
    by (simp add: submitDailyLog_def checkAuthentication_def Let_def)
qed

text \<open>
  Claim C9, amended. When the fetch succeeds without a \<open>habit_stack\<close> object, the
  session aborts with the error "No habit stack found for today. Please create goals
  first." and speaks nothing. When it succeeds with a stack that has no non-empty slot,
  the session does not abort: without any error it goes on to ask for the reflection; and
  a submission without responses is refused with "No habit responses to submit".
\<close>

theorem empty_stack_reaches_reflection:
  assumes "\<not> isProcessing s" and "getUserId s = Some userId"
    and "stackFetch env = HttpOk success err stackOpt" and "success \<noteq> Some False"
  shows
    "(stackOpt = None \<longrightarrow>
        \<not> isProcessing (startDailyCheck env s) \<and>
        habitStack (startDailyCheck env s) = habitStack s \<and>
        errorsReported (trace (startDailyCheck env s)) =
          errorsReported (trace s) @
          [''Error fetching habit stack: '' @ noStackMessage,
           ''Failed to start daily check: '' @ noStackMessage] \<and>
        spokenTexts (trace (startDailyCheck env s)) = spokenTexts (trace s)) \<and>
     (\<forall>stack. stackOpt = Some stack \<and> availableHabits stack = [] \<longrightarrow>
        startDailyCheck env s = askForReflection env (afterFetch userId stack s) \<and>
        (\<exists>rest. trace (startDailyCheck env s) =
           trace (afterFetch userId stack s) @ Status reflectionStatus # rest) \<and>
        errorsReported (trace (afterFetch userId stack s)) = errorsReported (trace s)) \<and>
     (\<forall>x. responses x = [] \<and> getUserId x = Some userId \<longrightarrow>
        submitDailyLog env x =
          submitFailed ''No habit responses to submit''
            (updateStatus ''Submitting your daily log...'' x))"
proof (intro conjI impI allI)
  assume n: "stackOpt = None"
  note r = startDailyCheck_no_stack_object [OF assms(1,2) assms(3) [unfolded n] assms(4)]
  show "\<not> isProcessing (startDailyCheck env s)" by (rule r(1))
  show "habitStack (startDailyCheck env s) = habitStack s" by (rule r(2))
  show "errorsReported (trace (startDailyCheck env s)) =
          errorsReported (trace s) @
          [''Error fetching habit stack: '' @ noStackMessage,
           ''Failed to start daily check: '' @ noStackMessage]" by (rule r(3))
  show "spokenTexts (trace (startDailyCheck env s)) = spokenTexts (trace s)" by (rule r(4))
next
  fix stack assume a: "stackOpt = Some stack \<and> availableHabits stack = []"
  then have so: "stackOpt = Some stack" and e: "availableHabits stack = []" by blast+
  note eq = startDailyCheck_empty_stack [OF assms(1,2) assms(3) [unfolded so] assms(4) e]
  show "startDailyCheck env s = askForReflection env (afterFetch userId stack s)" by (rule eq)
  show "\<exists>rest. trace (startDailyCheck env s) =
           trace (afterFetch userId stack s) @ Status reflectionStatus # rest"
    unfolding eq reflectionStatus_def by (rule askForReflection_trace)
  show "errorsReported (trace (afterFetch userId stack s)) = errorsReported (trace s)"
    by (simp add: afterFetch_def errorsReported_append)
next
  fix x assume "responses x = [] \<and> getUserId x = Some userId"
  then show "submitDailyLog env x =
          submitFailed ''No habit responses to submit''
            (updateStatus ''Submitting your daily log...'' x)"
    using submitDailyLog_no_responses by blast
qed

text \<open>The stack with one empty slot.\<close>

theorem empty_stack_reaches_reflection_witness:
  "\<not> isProcessing scenarioStart \<and> getUserId scenarioStart = Some ''user-1'' \<and>
   stackFetch emptyStackEnv = HttpOk (Some True) None (Some [(''habit_1'', [])]) \<and>
   Some True \<noteq> Some False \<and> availableHabits [(''habit_1'', [])] = [] \<and>
   startDailyCheck emptyStackEnv scenarioStart =
     askForReflection emptyStackEnv (afterFetch ''user-1'' [(''habit_1'', [])] scenarioStart) \<and>
   (\<exists>rest. trace (startDailyCheck emptyStackEnv scenarioStart) =
      trace (afterFetch ''user-1'' [(''habit_1'', [])] scenarioStart) @ Status reflectionStatus # rest) \<and>
   responses (startDailyCheck emptyStackEnv scenarioStart) = [] \<and>
   submitDailyLog emptyStackEnv (startDailyCheck emptyStackEnv scenarioStart) =
     submitFailed ''No habit responses to submit''
       (updateStatus ''Submitting your daily log...'' (startDailyCheck emptyStackEnv scenarioStart))"
proof -
  have h1: "\<not> isProcessing scenarioStart" by code_simp
  have h2: "getUserId scenarioStart = Some ''user-1''" by code_simp
  have h3: "stackFetch emptyStackEnv = HttpOk (Some True) None (Some [(''habit_1'', [])])"
    by (simp add: emptyStackEnv_def)
  have h4: "Some True \<noteq> Some False" by simp
  have h5: "availableHabits [(''habit_1'', [])] = []" by code_simp
  have h6: "responses (startDailyCheck emptyStackEnv scenarioStart) = []" by code_simp
  have h7: "getUserId (startDailyCheck emptyStackEnv scenarioStart) = Some ''user-1''" by code_simp
  note th = empty_stack_reaches_reflection [OF h1 h2 h3 h4]
  from th h5 have c1: "startDailyCheck emptyStackEnv scenarioStart =
     askForReflection emptyStackEnv (afterFetch ''user-1'' [(''habit_1'', [])] scenarioStart)"
    by blast
  from th h5 have c2: "\<exists>rest. trace (startDailyCheck emptyStackEnv scenarioStart) =
      trace (afterFetch ''user-1'' [(''habit_1'', [])] scenarioStart) @ Status reflectionStatus # rest"
    by blast
  from th h6 h7 have c3: "submitDailyLog emptyStackEnv (startDailyCheck emptyStackEnv scenarioStart) =
     submitFailed ''No habit responses to submit''
       (updateStatus ''Submitting your daily log...'' (startDailyCheck emptyStackEnv scenarioStart))"
    by blast
  show ?thesis by (intro conjI h1 h2 h3 h4 h5 c1 c2 h6 c3)
qed

section \<open>Properties of the goal segmentation\<close>

lemma splitFrom_nomatch:
  "\<not> matchesSomewhere m s \<Longrightarrow> splitFrom m acc s = [rev acc @ s]"
proof (induction s arbitrary: acc)
  case Nil
  then show ?case by (simp add: splitFrom.simps)
next
  case (Cons c cs)
  then have "m (c # cs) = None" "\<not> matchesSomewhere m cs" by auto
  with Cons.IH [of "c # acc"] show ?case by (simp add: splitFrom.simps)
qed

lemma tryPatterns_nomatch:
  assumes "list_all (\<lambda>p. \<not> matchesSomewhere (matchPattern p) t) ps" and "t \<noteq> []"
    and "goals = [] \<or> goals = [t]"
  shows "tryPatterns t ps goals = (if ps = [] then goals else [t])"
  using assms
proof (induction ps arbitrary: goals)
  case Nil
  then show ?case by simp
next
  case (Cons p ps)
  then have nm: "\<not> matchesSomewhere (matchPattern p) t"
    and rest: "list_all (\<lambda>p. \<not> matchesSomewhere (matchPattern p) t) ps" by auto
  have sp: "filter (\<lambda>g. g \<noteq> []) (splitBy (matchPattern p) t) = [t]"
    using splitFrom_nomatch [OF nm, of "[]"] Cons.prems(2) by (simp add: splitBy_def)
  have len: "length goals = 0 \<or> length goals = 1" using Cons.prems(3) by auto
  from Cons.IH [OF rest Cons.prems(2), of "[t]"]
  have "tryPatterns t ps [t] = (if ps = [] then [t] else [t])" by simp
  then show ?case using len sp by simp
qed

lemma goals_bounded: "length (processTranscriptIntoGoals n t) \<le> max 1 n"
proof -
  have "\<And>xs::string list. length (take n xs) \<le> max 1 n" by simp
  then show ?thesis
    unfolding processTranscriptIntoGoals_def Let_def
    by (simp only: split: if_split) (simp add: le_max_iff_disj)
qed

lemma goals_nonempty:
  "trim t \<noteq> [] \<Longrightarrow> processTranscriptIntoGoals n t \<noteq> []"
  by (auto simp: processTranscriptIntoGoals_def Let_def)

lemma trim_nonempty_imp: "trim t \<noteq> [] \<Longrightarrow> t \<noteq> []"
  by (auto simp: trim_def)

lemma goals_single:
  assumes "noDelimiter t" and "trim t \<noteq> []"
  shows "processTranscriptIntoGoals n t = [trim t]"
proof -
  from assms(2) have ne: "t \<noteq> []" by (rule trim_nonempty_imp)
  have ps: "splitPatterns \<noteq> []" by (simp add: splitPatterns_def)
  from assms(1) have nm: "\<not> hasNumberMarker t"
    and all: "list_all (\<lambda>p. \<not> matchesSomewhere (matchPattern p) t) splitPatterns"
    by (auto simp: noDelimiter_def)
  from tryPatterns_nomatch [OF all ne, of "[]"] ps
  have "tryPatterns t splitPatterns [] = [t]" by simp
  then show ?thesis using nm assms(2)
    by (cases n) (simp_all add: processTranscriptIntoGoals_def Let_def)
qed

lemma splitToken_head: "c \<noteq> CHR ''_'' \<Longrightarrow> matchString splitToken (c # x) = None"
  by (simp add: matchString_def splitToken_def)

lemma splitFrom_pass:
  "CHR ''_'' \<notin> set m \<Longrightarrow>
   splitFrom (matchString splitToken) acc (m @ x) =
   splitFrom (matchString splitToken) (rev m @ acc) x"
proof (induction m arbitrary: acc)
  case Nil
  then show ?case by simp
next
  case (Cons c m)
  then have "c \<noteq> CHR ''_''" "CHR ''_'' \<notin> set m" by auto
  with Cons.IH [of "c # acc"] show ?case
    by (simp add: splitFrom.simps splitToken_head)
qed

lemma startsWith_append: "startsWith (p @ x) p"
  by (induction p) auto

lemma splitFrom_token:
  "splitFrom (matchString splitToken) acc (splitToken @ x) =
   rev acc # splitFrom (matchString splitToken) [] x"
proof -
  have m: "matchString splitToken (splitToken @ x) = Some (length splitToken)"
    by (simp add: matchString_def startsWith_append)
  have e: "splitToken @ x = CHR ''_'' # (tl splitToken @ x)" by (simp add: splitToken_def)
  have n: "length splitToken \<noteq> 0" by (simp add: splitToken_def)
  have "splitFrom (matchString splitToken) acc (CHR ''_'' # (tl splitToken @ x)) =
        rev acc # splitFrom (matchString splitToken) []
                    (drop (length splitToken) (CHR ''_'' # (tl splitToken @ x)))"
    using m [unfolded e] n by (subst splitFrom.simps) simp
  then show ?thesis unfolding e [symmetric] by simp
qed

lemma matchMarker_no_digit: "\<not> isDigit c \<Longrightarrow> matchMarker (c # cs) = None"
  by (simp add: matchMarker_def)

lemma cutsFrom_pass:
  "\<forall>c \<in> set body. \<not> isDigit c \<Longrightarrow> cutsFrom acc (body @ r) = cutsFrom (rev body @ acc) r"
proof (induction body arbitrary: acc)
  case Nil
  then show ?case by simp
next
  case (Cons c body)
  then have "\<not> isDigit c" "\<forall>c \<in> set body. \<not> isDigit c" by auto
  with Cons.IH [of "c # acc"] show ?case
    by (simp add: cutsFrom.simps matchMarker_no_digit)
qed

lemma markersFollowed_suffix: "markersFollowed (xs @ ys) \<Longrightarrow> markersFollowed ys"
  by (induction xs) auto

lemma matchMarker_parts:
  "matchMarker s = Some (marker, r) \<Longrightarrow> s = marker @ r"
  by (auto simp: matchMarker_def Let_def split: if_splits list.splits)
     (metis takeWhile_dropWhile_id append.assoc append_Cons append_Nil)

lemma matchNumbered_parts:
  assumes "matchNumbered s = Some (m, r)"
  shows "\<exists>marker body. matchMarker s = Some (marker, body @ r) \<and> m = marker @ body \<and>
           s = m @ r \<and> (\<forall>c \<in> set body. \<not> isDigit c)"
proof -
  from assms obtain marker r0 where mm: "matchMarker s = Some (marker, r0)"
    and m: "m = marker @ takeWhile isGoalChar r0" and r: "r = dropWhile isGoalChar r0"
    by (auto simp: matchNumbered_def Let_def split: option.splits if_splits)
  have r0: "r0 = takeWhile isGoalChar r0 @ r" unfolding r by simp
  have nd: "\<forall>c \<in> set (takeWhile isGoalChar r0). \<not> isDigit c"
    by (auto dest: set_takeWhileD simp: isGoalChar_def)
  from matchMarker_parts [OF mm] have "s = m @ r" using m r0 by simp
  with mm m r0 nd show ?thesis by metis
qed

lemma matchNumbered_None_followed:
  assumes "matchNumbered (c # cs) = None" and "markersFollowed (c # cs)"
  shows "matchMarker (c # cs) = None"
proof (cases "matchMarker (c # cs)")
  case None
  then show ?thesis .
next
  case (Some p)
  obtain marker r where p: "p = (marker, r)" by (cases p)
  with Some assms(2) obtain d r' where r: "r = d # r'" "isGoalChar d"
    by (auto split: list.splits)
  then have "takeWhile isGoalChar r \<noteq> []" by simp
  with Some p assms(1) show ?thesis by (simp add: matchNumbered_def Let_def)
qed

lemma split_replace_cuts:
  "CHR ''_'' \<notin> set t \<Longrightarrow> markersFollowed t \<Longrightarrow>
   splitFrom (matchString splitToken) acc (replaceMarkers t) = cutsFrom acc t"
proof (induction t arbitrary: acc rule: replaceMarkers.induct)
  case 1
  then show ?case by (simp add: replaceMarkers.simps splitFrom.simps cutsFrom.simps)
next
  case (2 c cs)
  show ?case
  proof (cases "matchNumbered (c # cs)")
    case None
    from matchNumbered_None_followed [OF None "2.prems"(2)]
    have mm: "matchMarker (c # cs) = None" .
    have c: "c \<noteq> CHR ''_''" and cs: "CHR ''_'' \<notin> set cs" using "2.prems"(1) by auto
    have mf: "markersFollowed cs" using "2.prems"(2) by simp
    from "2.IH"(1) [OF None cs mf, of "c # acc"]
    show ?thesis using None mm c
      by (simp add: replaceMarkers.simps(2) [of c cs] splitFrom.simps(2) [of _ acc c]
               cutsFrom.simps(2) [of acc c] splitToken_head)
  next
    case (Some p)
    obtain m r where p: "p = (m, r)" by (cases p)
    from matchNumbered_parts [OF Some [unfolded p]] obtain marker body where
      mb: "matchMarker (c # cs) = Some (marker, body @ r)" "m = marker @ body"
        "c # cs = m @ r" "\<forall>c \<in> set body. \<not> isDigit c" by blast
    have nm: "CHR ''_'' \<notin> set m" and nr: "CHR ''_'' \<notin> set r"
      using "2.prems"(1) mb(3) by (metis Un_iff set_append)+
    have mf: "markersFollowed r" using "2.prems"(2) mb(3) markersFollowed_suffix by metis
    from "2.IH"(2) [OF Some [unfolded p] refl nr mf, of "rev m"]
    have ih: "splitFrom (matchString splitToken) (rev m) (replaceMarkers r) = cutsFrom (rev m) r" .
    have "splitFrom (matchString splitToken) acc (replaceMarkers (c # cs)) =
          rev acc # splitFrom (matchString splitToken) [] (m @ replaceMarkers r)"
      using Some p by (simp add: replaceMarkers.simps(2) [of c cs] splitFrom_token)
    also have "\<dots> = rev acc # splitFrom (matchString splitToken) (rev m) (replaceMarkers r)"
      using splitFrom_pass [OF nm, of "[]"] by simp
    also have "\<dots> = rev acc # cutsFrom (rev m) r" using ih by simp
    also have "\<dots> = rev acc # cutsFrom (rev marker) (body @ r)"
      using cutsFrom_pass [OF mb(4), of "rev marker" r] mb(2) by simp
    also have "\<dots> = cutsFrom acc (c # cs)"
      using mb(1) by (simp add: cutsFrom.simps(2) [of acc c])
    finally show ?thesis .
  qed
qed

lemma dropWhile_rev_dropWhile:
  "dropWhile P (rev (dropWhile P (rev (dropWhile P s)))) = rev (dropWhile P (rev (dropWhile P s)))"
  by (metis (no_types, lifting) ext dropWhile_eq_self_iff dropWhile_last
    hd_dropWhile hd_rev last_in_set last_rev rev.simps(1))

lemma trim_idem: "trim (trim s) = trim s"
  by (simp add: trim_def dropWhile_rev_dropWhile)

lemma trim_Nil [simp]: "trim [] = []"
  by (simp add: trim_def)

lemma stripLeadingMarker_Nil [simp]: "stripLeadingMarker [] = []"
  by (simp add: stripLeadingMarker_def matchMarker_def)

lemma trim_eq_Nil_iff: "trim s = [] \<longleftrightarrow> (\<forall>c \<in> set s. isWhiteSpace c)"
proof -
  have "trim s = [] \<longleftrightarrow> (\<forall>c \<in> set (dropWhile isWhiteSpace s). isWhiteSpace c)"
    by (simp add: trim_def dropWhile_eq_Nil_conv)
  also have "\<dots> \<longleftrightarrow> dropWhile isWhiteSpace s = []"
  proof
    assume a: "\<forall>c \<in> set (dropWhile isWhiteSpace s). isWhiteSpace c"
    show "dropWhile isWhiteSpace s = []"
    proof (rule ccontr)
      assume ne: "dropWhile isWhiteSpace s \<noteq> []"
      then have "\<not> isWhiteSpace (hd (dropWhile isWhiteSpace s))" by (rule hd_dropWhile)
      moreover have "hd (dropWhile isWhiteSpace s) \<in> set (dropWhile isWhiteSpace s)"
        using ne by simp
      ultimately show False using a by blast
    qed
  next
    assume "dropWhile isWhiteSpace s = []"
    then show "\<forall>c \<in> set (dropWhile isWhiteSpace s). isWhiteSpace c"
      by (simp only: set_simps ball_empty)
  qed
  also have "\<dots> \<longleftrightarrow> (\<forall>c \<in> set s. isWhiteSpace c)" by (simp add: dropWhile_eq_Nil_conv)
  finally show ?thesis .
qed

lemma isDigit_not_white: "isDigit c \<Longrightarrow> \<not> isWhiteSpace c"
  by (auto simp: isDigit_def isWhiteSpace_def)

lemma matchMarker_digit:
  "matchMarker s \<noteq> None \<Longrightarrow> \<exists>c cs. s = c # cs \<and> isDigit c"
  by (cases s) (auto simp: matchMarker_def Let_def split: if_splits)

lemma hasNumberMarker_digit: "hasNumberMarker t \<Longrightarrow> \<exists>c \<in> set t. isDigit c"
proof (induction t)
  case Nil
  then show ?case by simp
next
  case (Cons c cs)
  then show ?case using matchMarker_digit [of "c # cs"] by auto
qed

lemma hasNumberMarker_trim: "hasNumberMarker t \<Longrightarrow> trim t \<noteq> []"
  using hasNumberMarker_digit [of t] isDigit_not_white by (auto simp: trim_eq_Nil_iff)

lemma filter_clean:
  "filter (\<lambda>goal. goal \<noteq> [])
     (map trim (map (\<lambda>goal. trim (stripLeadingMarker goal)) (filter (\<lambda>g. g \<noteq> []) xs))) =
   filter (\<lambda>g. g \<noteq> []) (map trim (map stripLeadingMarker xs))"
  by (induction xs) (auto simp: trim_idem)

lemma numbered_goals_refine:
  assumes "hasNumberMarker t" and "markersFollowed t" and "CHR ''_'' \<notin> set t"
  shows "processTranscriptIntoGoals n t = numberedGoalsBySpec n t"
proof -
  have sp: "splitBy (matchString splitToken) (replaceMarkers t) = cutBeforeMarkers t"
    using split_replace_cuts [OF assms(3,2), of "[]"] by (simp add: splitBy_def cutBeforeMarkers_def)
  have tr: "trim t \<noteq> []" using assms(1) by (rule hasNumberMarker_trim)
  then have ne: "t \<noteq> []" by (rule trim_nonempty_imp)
  show ?thesis
    using assms(1) tr ne
    by (simp add: processTranscriptIntoGoals_def numberedGoalsBySpec_def Let_def sp filter_clean
             del: map_map)
qed

section \<open>Properties of the goals session\<close>

lemma note_effect_fields [simp]:
  "goalsTrace (note_effect e s) = goalsTrace s @ [e]"
  "maxGoals (note_effect e s) = maxGoals s"
  "lastResults (note_effect e s) = lastResults s"
  "goalsUserId (note_effect e s) = goalsUserId s"
  by (simp_all add: note_effect_def)

lemma backendPosts_append: "backendPosts (xs @ ys) = backendPosts xs @ backendPosts ys"
  by (induction xs rule: backendPosts.induct) auto

lemma finalResults_append: "finalResults (xs @ ys) = finalResults xs @ finalResults ys"
  by (induction xs rule: finalResults.induct) auto

lemma sendGoalsToBackend_posts:
  assumes "sendGoalsToBackend gs now post s = (r, s')"
  shows "\<exists>ps. backendPosts (goalsTrace s') = backendPosts (goalsTrace s) @ ps \<and>
              set (map payload_goals ps) \<subseteq> {gs} \<and>
              finalResults (goalsTrace s') = finalResults (goalsTrace s)"
  using assms
  by (auto simp: sendGoalsToBackend_def backendFailed_def Let_def backendPosts_append
                 finalResults_append
           split: if_splits option.splits http_outcome.splits)

lemma handleEnd_trace:
  "goalsTrace (handleEnd s) =
     goalsTrace s @
     (if length (trim (joinWith '' '' (lastResults s))) > 0
      then [OnStopListening,
            OnFinalResult (joinWith '' '' (lastResults s))
              (processTranscriptIntoGoals (maxGoals s) (joinWith '' '' (lastResults s))) True]
      else [OnStopListening])"
  by (simp add: handleEnd_def requestConfirmation_def Let_def)

lemma goalsStep_posts:
  "\<exists>ps. backendPosts (goalsTrace (goalsStep ev s)) = backendPosts (goalsTrace s) @ ps \<and>
        set (map payload_goals ps) \<subseteq> set (confirmedGoals [ev]) \<and>
        (\<exists>fs. finalResults (goalsTrace (goalsStep ev s)) = finalResults (goalsTrace s) @ fs \<and>
              list_all (\<lambda>r. snd (snd r)) fs)"
proof (cases ev)
  case (StartListening x)
  then show ?thesis
    by (auto simp: startListening_def backendPosts_append finalResults_append
             split: option.splits)
next
  case (StopListening x)
  then show ?thesis
    by (auto simp: stopListening_def backendPosts_append finalResults_append
             split: option.splits)
next
  case RecognitionOnStart
  then show ?thesis by (simp add: handleStart_def backendPosts_append finalResults_append)
next
  case RecognitionOnEnd
  then show ?thesis by (simp add: handleEnd_trace backendPosts_append finalResults_append)
next
  case (RecognitionOnResult rs)
  then show ?thesis
    by (simp add: handleResult_def backendPosts_append finalResults_append split: prod.splits)
next
  case (RecognitionOnError e)
  then show ?thesis
    by (simp add: handleRecognitionError_def backendPosts_append finalResults_append)
next
  case (SendConfirmedGoals gs now post)
  show ?thesis
  proof (cases "goalsGetUserId s")
    case None
    then show ?thesis using SendConfirmedGoals
      by (simp add: sendConfirmedGoals_def backendPosts_append finalResults_append)
  next
    case (Some u)
    obtain r s1 where sg: "sendGoalsToBackend gs now post s = (r, s1)"
      by (cases "sendGoalsToBackend gs now post s") auto
    from sendGoalsToBackend_posts [OF sg] obtain ps where
      ps: "backendPosts (goalsTrace s1) = backendPosts (goalsTrace s) @ ps"
          "set (map payload_goals ps) \<subseteq> {gs}"
          "finalResults (goalsTrace s1) = finalResults (goalsTrace s)" by blast
    then show ?thesis using SendConfirmedGoals Some sg
      by (cases r) (auto simp: sendConfirmedGoals_def backendPosts_append finalResults_append)
  qed
qed

lemma confirmedGoals_Cons: "confirmedGoals (ev # evs) = confirmedGoals [ev] @ confirmedGoals evs"
  by (cases ev) simp_all

lemma runGoals_posts:
  "set (map payload_goals (backendPosts (goalsTrace (runGoals evs s)))) \<subseteq>
     set (map payload_goals (backendPosts (goalsTrace s))) \<union> set (confirmedGoals evs)"
proof (induction evs arbitrary: s)
  case Nil
  then show ?case by (simp add: runGoals_def)
next
  case (Cons ev evs)
  from goalsStep_posts [of ev s] obtain ps where
    ps: "backendPosts (goalsTrace (goalsStep ev s)) = backendPosts (goalsTrace s) @ ps"
        "set (map payload_goals ps) \<subseteq> set (confirmedGoals [ev])" by blast
  have run: "runGoals (ev # evs) s = runGoals evs (goalsStep ev s)" by (simp add: runGoals_def)
  have "set (map payload_goals (backendPosts (goalsTrace (runGoals evs (goalsStep ev s))))) \<subseteq>
     set (map payload_goals (backendPosts (goalsTrace (goalsStep ev s)))) \<union> set (confirmedGoals evs)"
    by (rule Cons.IH)
  also have "\<dots> \<subseteq> set (map payload_goals (backendPosts (goalsTrace s))) \<union>
       (set (confirmedGoals [ev]) \<union> set (confirmedGoals evs))"
    using ps by auto
  also have "\<dots> = set (map payload_goals (backendPosts (goalsTrace s))) \<union>
       set (confirmedGoals (ev # evs))"
    by (subst confirmedGoals_Cons [of ev evs]) simp
  finally show ?case unfolding run .
qed

lemma runGoals_finalResults:
  "list_all (\<lambda>r. snd (snd r)) (finalResults (goalsTrace s)) \<Longrightarrow>
   list_all (\<lambda>r. snd (snd r)) (finalResults (goalsTrace (runGoals evs s)))"
proof (induction evs arbitrary: s)
  case Nil
  then show ?case by (simp add: runGoals_def)
next
  case (Cons ev evs)
  from goalsStep_posts [of ev s] obtain fs where
    fs: "finalResults (goalsTrace (goalsStep ev s)) = finalResults (goalsTrace s) @ fs"
        "list_all (\<lambda>r. snd (snd r)) fs" by blast
  have run: "runGoals (ev # evs) s = runGoals evs (goalsStep ev s)" by (simp add: runGoals_def)
  have "list_all (\<lambda>r. snd (snd r)) (finalResults (goalsTrace (goalsStep ev s)))"
    using fs Cons.prems by simp
  then show ?case unfolding run by (rule Cons.IH)
qed

text \<open>
  Claim C6. Goals reach the backend only through the confirmed-goals entry point. When
  listening ends, \<open>handleEnd\<close> posts nothing: for a non-blank transcript it hands the
  transcript and the processed goals to the \<open>onFinalResult\<close> callback with
  \<open>requiresConfirmation\<close> true. No event other than \<open>sendConfirmedGoals\<close> posts
  anything; in every run of the session each goal list posted is one that a
  \<open>sendConfirmedGoals\<close> call of that run was given; and every final result handed out
  requires confirmation.
\<close>

theorem goals_sent_only_after_confirmation:
  "backendPosts (goalsTrace (handleEnd s)) = backendPosts (goalsTrace s) \<and>
   (length (trim (joinWith '' '' (lastResults s))) > 0 \<longrightarrow>
      goalsTrace (handleEnd s) =
        goalsTrace s @
        [OnStopListening,
         OnFinalResult (joinWith '' '' (lastResults s))
           (processTranscriptIntoGoals (maxGoals s) (joinWith '' '' (lastResults s))) True]) \<and>
   (\<forall>ev. confirmedGoals [ev] = [] \<longrightarrow>
      backendPosts (goalsTrace (goalsStep ev s)) = backendPosts (goalsTrace s)) \<and>
   set (map payload_goals (backendPosts (goalsTrace (runGoals evs s)))) \<subseteq>
     set (map payload_goals (backendPosts (goalsTrace s))) \<union> set (confirmedGoals evs) \<and>
   (list_all (\<lambda>r. snd (snd r)) (finalResults (goalsTrace s)) \<longrightarrow>
    list_all (\<lambda>r. snd (snd r)) (finalResults (goalsTrace (runGoals evs s))))"
proof (intro conjI allI impI)
  show "backendPosts (goalsTrace (handleEnd s)) = backendPosts (goalsTrace s)"
    by (simp add: handleEnd_trace backendPosts_append)
  show "goalsTrace (handleEnd s) =
        goalsTrace s @
        [OnStopListening,
         OnFinalResult (joinWith '' '' (lastResults s))
           (processTranscriptIntoGoals (maxGoals s) (joinWith '' '' (lastResults s))) True]"
    if "length (trim (joinWith '' '' (lastResults s))) > 0"
    using that by (simp add: handleEnd_trace)
  show "backendPosts (goalsTrace (goalsStep ev s)) = backendPosts (goalsTrace s)"
    if "confirmedGoals [ev] = []" for ev
    using goalsStep_posts [of ev s] that by auto
  show "set (map payload_goals (backendPosts (goalsTrace (runGoals evs s)))) \<subseteq>
     set (map payload_goals (backendPosts (goalsTrace s))) \<union> set (confirmedGoals evs)"
    by (rule runGoals_posts)
  show "list_all (\<lambda>r. snd (snd r)) (finalResults (goalsTrace (runGoals evs s)))"
    if "list_all (\<lambda>r. snd (snd r)) (finalResults (goalsTrace s))"
    using that by (rule runGoals_finalResults)
qed

text \<open>A session that dictates three numbered goals and then confirms them.\<close>

theorem goals_sent_only_after_confirmation_witness:
  "length (trim (joinWith '' '' (lastResults listeningDone))) > 0 \<and>
   goalsTrace (handleEnd listeningDone) =
     goalsTrace listeningDone @
     [OnStopListening,
      OnFinalResult ''1. exercise daily 2) read more 3. meditate''
        [''exercise daily'', ''read more'', ''meditate''] True] \<and>
   backendPosts (goalsTrace (handleEnd listeningDone)) = [] \<and>
   confirmedGoals [RecognitionOnEnd] = [] \<and>
   backendPosts (goalsTrace (goalsStep RecognitionOnEnd listeningDone)) = [] \<and>
   set (map payload_goals (backendPosts (goalsTrace (runGoals goalsDemoEvents goalsDemo)))) \<subseteq>
     {[''exercise daily'', ''read more'', ''meditate'']} \<and>
   list_all (\<lambda>r. snd (snd r)) (finalResults (goalsTrace (runGoals goalsDemoEvents goalsDemo)))"
proof -
  have h1: "length (trim (joinWith '' '' (lastResults listeningDone))) > 0" by code_simp
  have h2: "confirmedGoals [RecognitionOnEnd] = []" by simp
  have h3: "list_all (\<lambda>r. snd (snd r)) (finalResults (goalsTrace goalsDemo))" by code_simp
  have e1: "joinWith '' '' (lastResults listeningDone) = ''1. exercise daily 2) read more 3. meditate''"
    by code_simp
  have e2: "processTranscriptIntoGoals (maxGoals listeningDone)
              ''1. exercise daily 2) read more 3. meditate'' =
            [''exercise daily'', ''read more'', ''meditate'']" by code_simp
  have e3: "backendPosts (goalsTrace listeningDone) = []" by code_simp
  have e4: "backendPosts (goalsTrace goalsDemo) = []" by code_simp
  have e5: "confirmedGoals goalsDemoEvents = [[''exercise daily'', ''read more'', ''meditate'']]"
    by code_simp
  note a = goals_sent_only_after_confirmation [of listeningDone goalsDemoEvents]
  note b = goals_sent_only_after_confirmation [of goalsDemo goalsDemoEvents]
  from a h1 have c1: "goalsTrace (handleEnd listeningDone) =
     goalsTrace listeningDone @
     [OnStopListening,
      OnFinalResult ''1. exercise daily 2) read more 3. meditate''
        [''exercise daily'', ''read more'', ''meditate''] True]"
    by (simp only: e1 e2 simp_thms)
  from a have c2: "backendPosts (goalsTrace (handleEnd listeningDone)) = []"
    by (simp only: e3 simp_thms)
  from a h2 have c3: "backendPosts (goalsTrace (goalsStep RecognitionOnEnd listeningDone)) = []"
    using e3 by metis
  from b have c4: "set (map payload_goals (backendPosts (goalsTrace (runGoals goalsDemoEvents goalsDemo)))) \<subseteq>
     {[''exercise daily'', ''read more'', ''meditate'']}"
    by (simp only: e4 e5) simp
  from b h3 have c5:
    "list_all (\<lambda>r. snd (snd r)) (finalResults (goalsTrace (runGoals goalsDemoEvents goalsDemo)))"
    by blast
  show ?thesis by (intro conjI h1 c1 c2 h2 c3 c4 c5)
qed

text \<open>
  Claim C7. In the time zone five hours behind UTC, on Wednesday 2024-01-10 at 21:00 local
  time, the most recent local Sunday is 2024-01-07, and the \<open>week_start\<close> posted with
  the confirmed goals is 2024-01-08: the UTC calendar date of that Sunday at 21:00 local
  time.
\<close>

theorem week_start_is_utc_date:
  "map week_start (backendPosts (goalsTrace (runGoals goalsDemoEvents goalsDemo))) =
     [''2024-01-08''] \<and>
   timeZone goalsDemo = - 300 \<and>
   localDateString (Day (LocalTime (- 300) 1704938400000)) = ''2024-01-10'' \<and>
   mostRecentSunday (- 300) 1704938400000 = ''2024-01-07''"
  by code_simp

text \<open>The posted date is not the most recent local Sunday.\<close>

theorem week_start_is_utc_date_witness:
  "map week_start (backendPosts (goalsTrace (runGoals goalsDemoEvents goalsDemo))) \<noteq>
     [mostRecentSunday (- 300) 1704938400000]"
  using week_start_is_utc_date by simp

text \<open>
  Claim C5, as stated, fails twice. A transcript of three spaces is non-empty and has no
  delimiter, and yields no goal. The transcript "walk 5." contains a numeric marker, and
  is neither cut before it nor stripped of it: cutting before each marker gives the one
  goal "walk", the code gives "walk 5.".
\<close>

theorem goals_segmentation_counterexample:
  "length ''   '' > 0 \<and> noDelimiter ''   '' \<and>
   processTranscriptIntoGoals 5 ''   '' = [] \<and>
   hasNumberMarker ''walk 5.'' \<and>
   numberedGoalsBySpec 5 ''walk 5.'' = [''walk''] \<and>
   processTranscriptIntoGoals 5 ''walk 5.'' = [''walk 5.'']"
  by code_simp

text \<open>
  Claim C5, amended. "1. exercise daily 2) read more 3. meditate" yields exactly
  "exercise daily", "read more", "meditate". A transcript with numeric markers, each
  followed by at least one character other than a comma, a period, a closing parenthesis
  or a digit, and without underscores, is cut immediately before each marker and each
  fragment loses its leading marker. The result never has more than \<open>maxGoals\<close> items
  (one at least counted), so never more than 5 for a session built without a
  \<open>maxGoals\<close> option. A transcript that is not blank never yields an empty result, and
  with no recognizable delimiter it yields exactly one goal, the trimmed transcript.
\<close>

theorem goals_segmentation:
  "processTranscriptIntoGoals 5 numberedTranscript =
     [''exercise daily'', ''read more'', ''meditate''] \<and>
   (hasNumberMarker t \<and> markersFollowed t \<and> CHR ''_'' \<notin> set t \<longrightarrow>
      processTranscriptIntoGoals n t = numberedGoalsBySpec n t) \<and>
   length (processTranscriptIntoGoals n t) \<le> max 1 n \<and>
   length (processTranscriptIntoGoals
             (maxGoals (VoiceGoalsInput endpoint uid None tz supported)) t) \<le> 5 \<and>
   (trim t \<noteq> [] \<longrightarrow> processTranscriptIntoGoals n t \<noteq> []) \<and>
   (noDelimiter t \<and> trim t \<noteq> [] \<longrightarrow> processTranscriptIntoGoals n t = [trim t])"
proof (intro conjI impI)
  show "processTranscriptIntoGoals 5 numberedTranscript =
     [''exercise daily'', ''read more'', ''meditate'']"
    by code_simp
  show "processTranscriptIntoGoals n t = numberedGoalsBySpec n t"
    if "hasNumberMarker t \<and> markersFollowed t \<and> CHR ''_'' \<notin> set t"
    using that numbered_goals_refine by blast
  show "length (processTranscriptIntoGoals n t) \<le> max 1 n" by (rule goals_bounded)
  have "maxGoals (VoiceGoalsInput endpoint uid None tz supported) = 5"
    by (simp add: VoiceGoalsInput_def)
  then show "length (processTranscriptIntoGoals
             (maxGoals (VoiceGoalsInput endpoint uid None tz supported)) t) \<le> 5"
    using goals_bounded [of 5 t] by simp
  show "processTranscriptIntoGoals n t \<noteq> []" if "trim t \<noteq> []"
    using that by (rule goals_nonempty)
  show "processTranscriptIntoGoals n t = [trim t]" if "noDelimiter t \<and> trim t \<noteq> []"
    using that goals_single by blast
qed

text \<open>The numbered transcript, and a transcript without delimiters.\<close>

theorem goals_segmentation_witness:
  "hasNumberMarker numberedTranscript \<and> markersFollowed numberedTranscript \<and>
   CHR ''_'' \<notin> set numberedTranscript \<and>
   processTranscriptIntoGoals 5 numberedTranscript = numberedGoalsBySpec 5 numberedTranscript \<and>
   numberedGoalsBySpec 5 numberedTranscript = [''exercise daily'', ''read more'', ''meditate''] \<and>
   noDelimiter '' exercise daily '' \<and> trim '' exercise daily '' \<noteq> [] \<and>
   processTranscriptIntoGoals 5 '' exercise daily '' = [''exercise daily'']"
proof -
  have h1: "hasNumberMarker numberedTranscript" by code_simp
  have h2: "markersFollowed numberedTranscript" by code_simp
  have h3: "CHR ''_'' \<notin> set numberedTranscript" by code_simp
  have h4: "noDelimiter '' exercise daily ''" by code_simp
  have h5: "trim '' exercise daily '' \<noteq> []" by code_simp
  have e1: "numberedGoalsBySpec 5 numberedTranscript = [''exercise daily'', ''read more'', ''meditate'']"
    by code_simp
  have e2: "trim '' exercise daily '' = ''exercise daily''" by code_simp
  from goals_segmentation [of numberedTranscript 5] h1 h2 h3
  have c1: "processTranscriptIntoGoals 5 numberedTranscript = numberedGoalsBySpec 5 numberedTranscript"
    by blast
  from goals_segmentation [of "'' exercise daily ''" 5] h4 h5
  have "processTranscriptIntoGoals 5 '' exercise daily '' = [trim '' exercise daily '']"
    by blast
  then have c2: "processTranscriptIntoGoals 5 '' exercise daily '' = [''exercise daily'']"
    by (simp only: e2)
  show ?thesis by (intro conjI h1 h2 h3 c1 e1 h4 h5 c2)
qed

end
